theory Spec2Isabelle
  imports Main
begin

section \<open>Results and errors\<close>

text \<open>
  The container signals failure in three ways: \<^verbatim>\<open>At\<close> throws \<^verbatim>\<open>std::out_of_range\<close>, the
  \<^verbatim>\<open>assert\<close>s of a debug build abort, and everything else that goes wrong (a read or write
  outside a live array, arithmetic on pointers into different arrays, a second
  \<^verbatim>\<open>delete[]\<close>) is undefined behaviour. Each is a value of \<open>error\<close>; an operation returns
  \<open>error + result\<close>.
\<close>

datatype error = OutOfRange | AssertionFailed | UndefinedBehaviour

definition bind_res :: "error + 'a \<Rightarrow> ('a \<Rightarrow> error + 'b) \<Rightarrow> error + 'b" where
  "bind_res m f = (case m of Inl e \<Rightarrow> Inl e | Inr x \<Rightarrow> f x)"

section \<open>The heap: arrays, pointers, elements\<close>

text \<open>
  A raw pointer \<^verbatim>\<open>Type*\<close> is null or names an array of the heap (by the number of its
  allocation) and an index into it. Every \<^verbatim>\<open>new Type[n]\<close> takes the next unused number, so a
  pointer into a deleted array never names a later one. Sizes (\<^verbatim>\<open>size_t\<close>) are natural
  numbers: an allocation is assumed to succeed, and no array is large enough for
  \<^verbatim>\<open>capacity_ * 2\<close> to wrap.
\<close>

datatype ptr = Null | Ptr nat nat

record 'a heap =
  cells :: "nat \<Rightarrow> 'a list option"
  fresh :: nat

text \<open>
  What the container needs of its element type \<^verbatim>\<open>Type\<close>: the value \<^verbatim>\<open>Type{}\<close>, the content of
  an element after \<^verbatim>\<open>new Type[n]\<close> (default-initialised: the default constructor's value for
  a class type, indeterminate for a scalar), and the state a move leaves its source in.
\<close>

record 'a element_type =
  value_init :: 'a
  default_init :: 'a
  moved_from :: "'a \<Rightarrow> 'a"

definition ptr_add :: "ptr \<Rightarrow> nat \<Rightarrow> error + ptr" where
  "ptr_add p n = (case p of
      Null \<Rightarrow> if n = 0 then Inr Null else Inl UndefinedBehaviour
    | Ptr b i \<Rightarrow> Inr (Ptr b (i + n)))"

definition ptr_sub :: "ptr \<Rightarrow> nat \<Rightarrow> error + ptr" where
  "ptr_sub p n = (case p of
      Null \<Rightarrow> if n = 0 then Inr Null else Inl UndefinedBehaviour
    | Ptr b i \<Rightarrow> if n \<le> i then Inr (Ptr b (i - n)) else Inl UndefinedBehaviour)"

text \<open>\<^verbatim>\<open>p - q\<close>, defined for two pointers into one array (or two null pointers).\<close>

definition ptr_diff :: "ptr \<Rightarrow> ptr \<Rightarrow> error + int" where
  "ptr_diff p q = (case (p, q) of
      (Null, Null) \<Rightarrow> Inr 0
    | (Ptr b i, Ptr c j) \<Rightarrow> if b = c then Inr (int i - int j) else Inl UndefinedBehaviour
    | _ \<Rightarrow> Inl UndefinedBehaviour)"

text \<open>
  \<^verbatim>\<open>p <= q\<close> and \<^verbatim>\<open>p < q\<close>. The order of pointers into different arrays is unspecified in
  C++; here such pointers are not ordered at all, so an assertion on them fails.
\<close>

definition ptr_le :: "ptr \<Rightarrow> ptr \<Rightarrow> bool" where
  "ptr_le p q = (case (p, q) of
      (Null, Null) \<Rightarrow> True
    | (Ptr b i, Ptr c j) \<Rightarrow> b = c \<and> i \<le> j
    | _ \<Rightarrow> False)"

definition ptr_less :: "ptr \<Rightarrow> ptr \<Rightarrow> bool" where
  "ptr_less p q = (case (p, q) of
      (Ptr b i, Ptr c j) \<Rightarrow> b = c \<and> i < j
    | _ \<Rightarrow> False)"

text \<open>
  The conversion of a \<^verbatim>\<open>ptrdiff_t\<close> to \<^verbatim>\<open>size_t\<close> (64 bits): a negative difference wraps
  around. Sizes are not bounded here, so a difference that is not negative is kept.
\<close>

definition to_size_t :: "int \<Rightarrow> nat" where
  "to_size_t d = (if d < 0 then nat (d + 2 ^ 64) else nat d)"

definition load :: "'a heap \<Rightarrow> ptr \<Rightarrow> error + 'a" where
  "load h p = (case p of
      Null \<Rightarrow> Inl UndefinedBehaviour
    | Ptr b i \<Rightarrow> (case cells h b of
        None \<Rightarrow> Inl UndefinedBehaviour
      | Some xs \<Rightarrow> if i < length xs then Inr (xs ! i) else Inl UndefinedBehaviour))"

definition store :: "'a heap \<Rightarrow> ptr \<Rightarrow> 'a \<Rightarrow> error + 'a heap" where
  "store h p x = (case p of
      Null \<Rightarrow> Inl UndefinedBehaviour
    | Ptr b i \<Rightarrow> (case cells h b of
        None \<Rightarrow> Inl UndefinedBehaviour
      | Some xs \<Rightarrow> if i < length xs then Inr (h\<lparr>cells := (cells h)(b \<mapsto> xs[i := x])\<rparr>)
                   else Inl UndefinedBehaviour))"

text \<open>\<^verbatim>\<open>*dst = *src\<close> and \<^verbatim>\<open>*dst = std::move(*src)\<close> on elements.\<close>

definition copy_assign :: "'a heap \<Rightarrow> ptr \<Rightarrow> ptr \<Rightarrow> error + 'a heap" where
  "copy_assign h dst src = bind_res (load h src) (\<lambda>x. store h dst x)"

definition move_assign :: "'a element_type \<Rightarrow> 'a heap \<Rightarrow> ptr \<Rightarrow> ptr \<Rightarrow> error + 'a heap" where
  "move_assign T h dst src =
     bind_res (load h src) (\<lambda>x.
     bind_res (store h dst x) (\<lambda>h1.
     store h1 src (moved_from T x)))"

definition new_array :: "'a element_type \<Rightarrow> nat \<Rightarrow> 'a heap \<Rightarrow> ptr \<times> 'a heap" where
  "new_array T n h =
     (Ptr (fresh h) 0,
      h\<lparr>cells := (cells h)(fresh h \<mapsto> replicate n (default_init T)), fresh := Suc (fresh h)\<rparr>)"

definition delete_array :: "ptr \<Rightarrow> 'a heap \<Rightarrow> error + 'a heap" where
  "delete_array p h = (case p of
      Null \<Rightarrow> Inr h
    | Ptr b i \<Rightarrow> (case cells h b of
        None \<Rightarrow> Inl UndefinedBehaviour
      | Some xs \<Rightarrow> if i = 0 then Inr (h\<lparr>cells := (cells h)(b := None)\<rparr>)
                   else Inl UndefinedBehaviour))"

section \<open>Loops and the standard algorithms\<close>

text \<open>\<^verbatim>\<open>for (size_t i = a; i < n; ++i) body(i)\<close>, stopping at the first failure.\<close>

function for_loop :: "nat \<Rightarrow> nat \<Rightarrow> (nat \<Rightarrow> 's \<Rightarrow> error + 's) \<Rightarrow> 's \<Rightarrow> error + 's" where
  "for_loop i n body s =
     (if i < n then (case body i s of Inl e \<Rightarrow> Inl e | Inr s' \<Rightarrow> for_loop (Suc i) n body s')
      else Inr s)"
  by pat_completeness auto
termination
  by (relation "measure (\<lambda>(i, n, body, s). n - i)") auto

declare for_loop.simps [simp del]

text \<open>
  The length of an iterator range \<open>[first, last)\<close>. An algorithm that walks from \<open>first\<close>
  until it meets \<open>last\<close> is defined only when \<open>last\<close> can be reached.
\<close>

definition range_length :: "ptr \<Rightarrow> ptr \<Rightarrow> error + nat" where
  "range_length first last1 =
     bind_res (ptr_diff last1 first) (\<lambda>d. if d < 0 then Inl UndefinedBehaviour else Inr (nat d))"

definition std_copy :: "ptr \<Rightarrow> ptr \<Rightarrow> ptr \<Rightarrow> 'a heap \<Rightarrow> error + 'a heap" where
  "std_copy first last1 d_first h =
     bind_res (range_length first last1) (\<lambda>n.
     for_loop 0 n (\<lambda>k h'.
       bind_res (ptr_add first k) (\<lambda>src.
       bind_res (ptr_add d_first k) (\<lambda>dst. copy_assign h' dst src))) h)"

text \<open>\<^verbatim>\<open>std::copy\<close> out of a \<^verbatim>\<open>std::initializer_list\<close>, whose array is not on the heap.\<close>

definition std_copy_init :: "'a list \<Rightarrow> ptr \<Rightarrow> 'a heap \<Rightarrow> error + 'a heap" where
  "std_copy_init init d_first h =
     for_loop 0 (length init) (\<lambda>k h'.
       bind_res (ptr_add d_first k) (\<lambda>dst. store h' dst (init ! k))) h"

definition std_fill :: "ptr \<Rightarrow> ptr \<Rightarrow> ptr \<Rightarrow> 'a heap \<Rightarrow> error + 'a heap" where
  "std_fill first last1 val h =
     bind_res (range_length first last1) (\<lambda>n.
     for_loop 0 n (\<lambda>k h'.
       bind_res (ptr_add first k) (\<lambda>dst. copy_assign h' dst val)) h)"

definition std_generate :: "ptr \<Rightarrow> ptr \<Rightarrow> 'a \<Rightarrow> 'a heap \<Rightarrow> error + 'a heap" where
  "std_generate first last1 g h =
     bind_res (range_length first last1) (\<lambda>n.
     for_loop 0 n (\<lambda>k h'.
       bind_res (ptr_add first k) (\<lambda>dst. store h' dst g)) h)"

text \<open>\<^verbatim>\<open>std::move(first, last, d_first)\<close>: ascending, each element move-assigned.\<close>

definition std_move :: "'a element_type \<Rightarrow> ptr \<Rightarrow> ptr \<Rightarrow> ptr \<Rightarrow> 'a heap \<Rightarrow> error + 'a heap" where
  "std_move T first last1 d_first h =
     bind_res (range_length first last1) (\<lambda>n.
     for_loop 0 n (\<lambda>k h'.
       bind_res (ptr_add first k) (\<lambda>src.
       bind_res (ptr_add d_first k) (\<lambda>dst. move_assign T h' dst src))) h)"

text \<open>
  \<^verbatim>\<open>std::move_backward(first, last, d_last)\<close>: the last element first, each move-assigned;
  returns the iterator to the last element written, \<open>d_last - (last - first)\<close>.
\<close>

definition std_move_backward ::
  "'a element_type \<Rightarrow> ptr \<Rightarrow> ptr \<Rightarrow> ptr \<Rightarrow> 'a heap \<Rightarrow> error + (ptr \<times> 'a heap)" where
  "std_move_backward T first last1 d_last h =
     bind_res (range_length first last1) (\<lambda>n.
     bind_res (for_loop 0 n (\<lambda>k h'.
       bind_res (ptr_sub last1 (Suc k)) (\<lambda>src.
       bind_res (ptr_sub d_last (Suc k)) (\<lambda>dst. move_assign T h' dst src))) h) (\<lambda>h1.
     bind_res (ptr_sub d_last n) (\<lambda>it. Inr (it, h1))))"

text \<open>\<^verbatim>\<open>std::equal(first1, last1, first2)\<close>: stops at the first pair that differs.\<close>

function equal_loop :: "nat \<Rightarrow> nat \<Rightarrow> ptr \<Rightarrow> ptr \<Rightarrow> 'a heap \<Rightarrow> error + bool" where
  "equal_loop i n first1 first2 h =
     (if i < n then
        (case bind_res (ptr_add first1 i) (load h) of Inl e \<Rightarrow> Inl e | Inr x \<Rightarrow>
        (case bind_res (ptr_add first2 i) (load h) of Inl e \<Rightarrow> Inl e | Inr y \<Rightarrow>
           if x = y then equal_loop (Suc i) n first1 first2 h else Inr False))
      else Inr True)"
  by pat_completeness auto
termination
  by (relation "measure (\<lambda>(i, n, first1, first2, h). n - i)") auto

declare equal_loop.simps [simp del]

definition std_equal :: "ptr \<Rightarrow> ptr \<Rightarrow> ptr \<Rightarrow> 'a heap \<Rightarrow> error + bool" where
  "std_equal first1 last1 first2 h =
     bind_res (range_length first1 last1) (\<lambda>n. equal_loop 0 n first1 first2 h)"

section \<open>ArrayPtr\<close>

text \<open>
  \<^verbatim>\<open>array_ptr.h\<close>: the owner of one heap array. Its only member is the raw pointer
  \<^verbatim>\<open>raw_ptr_\<close> (a trailing underscore is not a name here, so the members are \<open>raw_ptr\<close>,
  and \<open>size_v\<close>, \<open>capacity_v\<close>, \<open>items_v\<close> below).
\<close>

record ArrayPtr =
  raw_ptr :: ptr

definition ArrayPtr_default :: ArrayPtr where
  "ArrayPtr_default = \<lparr>raw_ptr = Null\<rparr>"

text \<open>\<^verbatim>\<open>explicit ArrayPtr(size_t size)\<close>.\<close>

definition ArrayPtr_size :: "'a element_type \<Rightarrow> nat \<Rightarrow> 'a heap \<Rightarrow> ArrayPtr \<times> 'a heap" where
  "ArrayPtr_size T n h =
     (if n = 0 then (\<lparr>raw_ptr = Null\<rparr>, h)
      else (case new_array T n h of (arr, h1) \<Rightarrow> (\<lparr>raw_ptr = arr\<rparr>, h1)))"

text \<open>\<^verbatim>\<open>ArrayPtr(ArrayPtr&& other)\<close>: the new object and what is left of \<open>other\<close>.\<close>

definition ArrayPtr_move :: "ArrayPtr \<Rightarrow> ArrayPtr \<times> ArrayPtr" where
  "ArrayPtr_move other = (\<lparr>raw_ptr = raw_ptr other\<rparr>, other\<lparr>raw_ptr := Null\<rparr>)"

definition Get :: "ArrayPtr \<Rightarrow> ptr" where
  "Get a = raw_ptr a"

text \<open>\<^verbatim>\<open>operator[]\<close>: the reference \<^verbatim>\<open>raw_ptr_[index]\<close>, as the address of that element.\<close>

definition ArrayPtr_index :: "ArrayPtr \<Rightarrow> nat \<Rightarrow> error + ptr" where
  "ArrayPtr_index a index = ptr_add (raw_ptr a) index"

definition ArrayPtr_swap :: "ArrayPtr \<times> ArrayPtr \<Rightarrow> ArrayPtr \<times> ArrayPtr" where
  "ArrayPtr_swap ab = (case ab of (a, other) \<Rightarrow>
     (let tmp = raw_ptr a;
          a1 = a\<lparr>raw_ptr := raw_ptr other\<rparr>;
          other1 = other\<lparr>raw_ptr := tmp\<rparr>
      in (a1, other1)))"

text \<open>\<^verbatim>\<open>~ArrayPtr()\<close>.\<close>

definition ArrayPtr_destroy :: "ArrayPtr \<Rightarrow> 'a heap \<Rightarrow> error + 'a heap" where
  "ArrayPtr_destroy a h = delete_array (raw_ptr a) h"

section \<open>SimpleVector\<close>

record ReserveProxyObj =
  capacity_to_reserve :: nat

definition ReserveProxyObj_GetCapacity :: "ReserveProxyObj \<Rightarrow> nat" where
  "ReserveProxyObj_GetCapacity obj = capacity_to_reserve obj"

text \<open>The free function \<^verbatim>\<open>Reserve\<close>.\<close>

definition Reserve :: "nat \<Rightarrow> ReserveProxyObj" where
  "Reserve n = \<lparr>capacity_to_reserve = n\<rparr>"

record SimpleVector =
  size_v :: nat
  capacity_v :: nat
  items_v :: ArrayPtr

text \<open>
  A member function takes the object it is called on together with the heap and returns
  both; one that takes a second vector by reference, which may be the same object, is
  defined on a store of objects further down.
\<close>

definition SimpleVector_default :: SimpleVector where
  "SimpleVector_default = \<lparr>size_v = 0, capacity_v = 0, items_v = ArrayPtr_default\<rparr>"

definition GetSize :: "SimpleVector \<Rightarrow> nat" where
  "GetSize v = size_v v"

definition GetCapacity :: "SimpleVector \<Rightarrow> nat" where
  "GetCapacity v = capacity_v v"

definition IsEmpty :: "SimpleVector \<Rightarrow> bool" where
  "IsEmpty v = (size_v v = 0)"

definition begin_it :: "SimpleVector \<Rightarrow> ptr" where
  "begin_it v = Get (items_v v)"

definition end_it :: "SimpleVector \<Rightarrow> error + ptr" where
  "end_it v = ptr_add (Get (items_v v)) (size_v v)"

definition cbegin :: "SimpleVector \<Rightarrow> ptr" where
  "cbegin v = Get (items_v v)"

definition cend :: "SimpleVector \<Rightarrow> error + ptr" where
  "cend v = ptr_add (Get (items_v v)) (size_v v)"

text \<open>\<^verbatim>\<open>SimpleVector(SimpleVector&& other)\<close>: the new vector and what is left of \<open>other\<close>.\<close>

definition SimpleVector_move :: "SimpleVector \<Rightarrow> SimpleVector \<times> SimpleVector" where
  "SimpleVector_move other =
     (let s = size_v other; other1 = other\<lparr>size_v := 0\<rparr>;
          c = capacity_v other1; other2 = other1\<lparr>capacity_v := 0\<rparr>
      in (case ArrayPtr_move (items_v other2) of (items, rest) \<Rightarrow>
           (\<lparr>size_v = s, capacity_v = c, items_v = items\<rparr>, other2\<lparr>items_v := rest\<rparr>)))"

text \<open>\<^verbatim>\<open>SimpleVector(const SimpleVector& other)\<close>.\<close>

definition SimpleVector_copy ::
  "'a element_type \<Rightarrow> SimpleVector \<Rightarrow> 'a heap \<Rightarrow> error + (SimpleVector \<times> 'a heap)" where
  "SimpleVector_copy T other h =
     (case ArrayPtr_size T (GetSize other) h of (items, h1) \<Rightarrow>
     (let v = \<lparr>size_v = GetSize other, capacity_v = GetCapacity other, items_v = items\<rparr> in
      bind_res (end_it other) (\<lambda>e.
      bind_res (std_copy (begin_it other) e (begin_it v) h1) (\<lambda>h2. Inr (v, h2)))))"

text \<open>\<^verbatim>\<open>explicit SimpleVector(size_t size)\<close>.\<close>

definition SimpleVector_size ::
  "'a element_type \<Rightarrow> nat \<Rightarrow> 'a heap \<Rightarrow> error + (SimpleVector \<times> 'a heap)" where
  "SimpleVector_size T n h =
     (case ArrayPtr_size T n h of (items, h1) \<Rightarrow>
     (let v = \<lparr>size_v = n, capacity_v = n, items_v = items\<rparr> in
      bind_res (ptr_add (Get (items_v v)) n) (\<lambda>e.
      bind_res (std_generate (Get (items_v v)) e (value_init T) h1) (\<lambda>h2. Inr (v, h2)))))"

text \<open>\<^verbatim>\<open>SimpleVector(size_t size, const Type& value)\<close>; \<open>val\<close> is the reference.\<close>

definition SimpleVector_fill ::
  "'a element_type \<Rightarrow> nat \<Rightarrow> ptr \<Rightarrow> 'a heap \<Rightarrow> error + (SimpleVector \<times> 'a heap)" where
  "SimpleVector_fill T n val h =
     (case ArrayPtr_size T n h of (items, h1) \<Rightarrow>
     (let v = \<lparr>size_v = n, capacity_v = n, items_v = items\<rparr> in
      bind_res (end_it v) (\<lambda>e.
      bind_res (std_fill (begin_it v) e val h1) (\<lambda>h2. Inr (v, h2)))))"

text \<open>\<^verbatim>\<open>SimpleVector(std::initializer_list<Type> init)\<close>.\<close>

definition SimpleVector_init ::
  "'a element_type \<Rightarrow> 'a list \<Rightarrow> 'a heap \<Rightarrow> error + (SimpleVector \<times> 'a heap)" where
  "SimpleVector_init T init h =
     (case ArrayPtr_size T (length init) h of (items, h1) \<Rightarrow>
     (let v = \<lparr>size_v = length init, capacity_v = length init, items_v = items\<rparr> in
      bind_res (std_copy_init init (begin_it v) h1) (\<lambda>h2. Inr (v, h2))))"

definition swap_vec :: "SimpleVector \<times> SimpleVector \<Rightarrow> SimpleVector \<times> SimpleVector" where
  "swap_vec vo = (case vo of (v, other) \<Rightarrow>
     (case ArrayPtr_swap (items_v v, items_v other) of (i1, i2) \<Rightarrow>
       (v\<lparr>items_v := i1, size_v := size_v other, capacity_v := capacity_v other\<rparr>,
        other\<lparr>items_v := i2, size_v := size_v v, capacity_v := capacity_v v\<rparr>)))"

text \<open>\<^verbatim>\<open>~SimpleVector()\<close>: the destructor of its only owning member.\<close>

definition SimpleVector_destroy :: "SimpleVector \<Rightarrow> 'a heap \<Rightarrow> error + 'a heap" where
  "SimpleVector_destroy v h = ArrayPtr_destroy (items_v v) h"

text \<open>\<^verbatim>\<open>operator[]\<close>, with the assertion of a debug build; the result is the reference.\<close>

definition operator_index :: "SimpleVector \<Rightarrow> nat \<Rightarrow> error + ptr" where
  "operator_index v index =
     (if \<not> index \<le> size_v v then Inl AssertionFailed
      else ArrayPtr_index (items_v v) index)"

definition At :: "SimpleVector \<Rightarrow> nat \<Rightarrow> error + ptr" where
  "At v index =
     (if index \<ge> size_v v then Inl OutOfRange
      else ArrayPtr_index (items_v v) index)"

definition Clear :: "SimpleVector \<Rightarrow> SimpleVector" where
  "Clear v = v\<lparr>size_v := 0\<rparr>"

definition Resize ::
  "'a element_type \<Rightarrow> nat \<Rightarrow> SimpleVector \<times> 'a heap \<Rightarrow> error + (SimpleVector \<times> 'a heap)" where
  "Resize T new_size vh = (case vh of (v, h) \<Rightarrow>
     if new_size = size_v v then Inr (v, h)
     else if new_size < size_v v then Inr (v\<lparr>size_v := new_size\<rparr>, h)
     else if new_size \<le> capacity_v v then
       bind_res (for_loop (size_v v) new_size (\<lambda>i h'.
           bind_res (ArrayPtr_index (items_v v) i) (\<lambda>dst. store h' dst (value_init T))) h) (\<lambda>h1.
       Inr (v\<lparr>size_v := new_size\<rparr>, h1))
     else
       (let v1 = v\<lparr>capacity_v := max (capacity_v v * 2) new_size\<rparr> in
        bind_res (SimpleVector_size T (capacity_v v1) h) (\<lambda>(tmp, h1).
        bind_res (for_loop 0 (size_v v1) (\<lambda>i h'.
            bind_res (ArrayPtr_index (items_v tmp) i) (\<lambda>dst.
            bind_res (ArrayPtr_index (items_v v1) i) (\<lambda>src. move_assign T h' dst src))) h1) (\<lambda>h2.
        (case swap_vec (v1, tmp) of (v2, tmp2) \<Rightarrow>
        (let v3 = v2\<lparr>size_v := new_size\<rparr> in
         bind_res (SimpleVector_destroy tmp2 h2) (\<lambda>h3. Inr (v3, h3))))))))"

text \<open>
  \<^verbatim>\<open>PushBack(const Type& item)\<close> and \<^verbatim>\<open>PushBack(Type&& item)\<close>; \<open>item\<close> is the reference.
\<close>

definition PushBack ::
  "'a element_type \<Rightarrow> ptr \<Rightarrow> SimpleVector \<times> 'a heap \<Rightarrow> error + (SimpleVector \<times> 'a heap)" where
  "PushBack T item vh = (case vh of (v, h) \<Rightarrow>
     bind_res (if size_v v < capacity_v v then Inr (v\<lparr>size_v := size_v v + 1\<rparr>, h)
               else Resize T (size_v v + 1) (v, h)) (\<lambda>(v1, h1).
     bind_res (ArrayPtr_index (items_v v1) (size_v v1 - 1)) (\<lambda>dst.
     bind_res (copy_assign h1 dst item) (\<lambda>h2. Inr (v1, h2)))))"

definition PushBack_move ::
  "'a element_type \<Rightarrow> ptr \<Rightarrow> SimpleVector \<times> 'a heap \<Rightarrow> error + (SimpleVector \<times> 'a heap)" where
  "PushBack_move T item vh = (case vh of (v, h) \<Rightarrow>
     bind_res (if size_v v < capacity_v v then Inr (v\<lparr>size_v := size_v v + 1\<rparr>, h)
               else Resize T (size_v v + 1) (v, h)) (\<lambda>(v1, h1).
     bind_res (ArrayPtr_index (items_v v1) (size_v v1 - 1)) (\<lambda>dst.
     bind_res (move_assign T h1 dst item) (\<lambda>h2. Inr (v1, h2)))))"

text \<open>
  \<^verbatim>\<open>Insert(ConstIterator pos, const Type& value)\<close>. In \<^verbatim>\<open>PushBack(std::move(value))\<close> the
  argument is a \<^verbatim>\<open>const Type&&\<close>, which only \<^verbatim>\<open>PushBack(const Type&)\<close> accepts: the call
  copies. The index is computed from \<open>pos\<close> after the vector has grown.
\<close>

definition Insert ::
  "'a element_type \<Rightarrow> ptr \<Rightarrow> ptr \<Rightarrow> SimpleVector \<times> 'a heap
     \<Rightarrow> error + (ptr \<times> SimpleVector \<times> 'a heap)" where
  "Insert T pos val vh = (case vh of (v, h) \<Rightarrow>
     bind_res (cend v) (\<lambda>e.
     if \<not> (ptr_le (cbegin v) pos \<and> ptr_le pos e) then Inl AssertionFailed
     else if pos = e then
       bind_res (PushBack T val (v, h)) (\<lambda>(v1, h1).
       bind_res (end_it v1) (\<lambda>e1.
       bind_res (ptr_sub e1 1) (\<lambda>it. Inr (it, v1, h1))))
     else
       bind_res (if size_v v < capacity_v v then Inr (v\<lparr>size_v := size_v v + 1\<rparr>, h)
                 else Resize T (size_v v + 1) (v, h)) (\<lambda>(v1, h1).
       bind_res (ptr_diff pos (cbegin v1)) (\<lambda>d.
       (let index = to_size_t d in
        bind_res (ArrayPtr_index (items_v v1) index) (\<lambda>first.
        bind_res (end_it v1) (\<lambda>e1.
        bind_res (ptr_sub e1 1) (\<lambda>last1.
        bind_res (std_move_backward T first last1 e1 h1) (\<lambda>(it, h2).
        bind_res (ptr_sub it 1) (\<lambda>it1.
        bind_res (copy_assign h2 it1 val) (\<lambda>h3. Inr (it1, v1, h3))))))))))))"

text \<open>\<^verbatim>\<open>Insert(ConstIterator pos, Type&& value)\<close>.\<close>

definition Insert_move ::
  "'a element_type \<Rightarrow> ptr \<Rightarrow> ptr \<Rightarrow> SimpleVector \<times> 'a heap
     \<Rightarrow> error + (ptr \<times> SimpleVector \<times> 'a heap)" where
  "Insert_move T pos val vh = (case vh of (v, h) \<Rightarrow>
     bind_res (cend v) (\<lambda>e.
     if \<not> (ptr_le (cbegin v) pos \<and> ptr_le pos e) then Inl AssertionFailed
     else if pos = e then
       bind_res (PushBack_move T val (v, h)) (\<lambda>(v1, h1).
       bind_res (end_it v1) (\<lambda>e1.
       bind_res (ptr_sub e1 1) (\<lambda>it. Inr (it, v1, h1))))
     else
       bind_res (if size_v v < capacity_v v then Inr (v\<lparr>size_v := size_v v + 1\<rparr>, h)
                 else Resize T (size_v v + 1) (v, h)) (\<lambda>(v1, h1).
       bind_res (ptr_diff pos (cbegin v1)) (\<lambda>d.
       (let index = to_size_t d in
        bind_res (ArrayPtr_index (items_v v1) index) (\<lambda>first.
        bind_res (end_it v1) (\<lambda>e1.
        bind_res (ptr_sub e1 1) (\<lambda>last1.
        bind_res (std_move_backward T first last1 e1 h1) (\<lambda>(it, h2).
        bind_res (ptr_sub it 1) (\<lambda>it1.
        bind_res (move_assign T h2 it1 val) (\<lambda>h3. Inr (it1, v1, h3))))))))))))"

definition PopBack :: "SimpleVector \<Rightarrow> error + SimpleVector" where
  "PopBack v = (if IsEmpty v then Inl AssertionFailed else Inr (v\<lparr>size_v := size_v v - 1\<rparr>))"

definition Erase ::
  "'a element_type \<Rightarrow> ptr \<Rightarrow> SimpleVector \<times> 'a heap
     \<Rightarrow> error + (ptr \<times> SimpleVector \<times> 'a heap)" where
  "Erase T pos vh = (case vh of (v, h) \<Rightarrow>
     if IsEmpty v then Inl AssertionFailed
     else
       bind_res (cend v) (\<lambda>e.
       if \<not> (ptr_le (cbegin v) pos \<and> ptr_less pos e) then Inl AssertionFailed
       else
         bind_res (ptr_diff pos (cbegin v)) (\<lambda>d.
         (let index = to_size_t d in
          bind_res (ArrayPtr_index (items_v v) (index + 1)) (\<lambda>first.
          bind_res (end_it v) (\<lambda>e1.
          bind_res (ArrayPtr_index (items_v v) index) (\<lambda>d_first.
          bind_res (std_move T first e1 d_first h) (\<lambda>h1.
          (let v1 = v\<lparr>size_v := size_v v - 1\<rparr> in
           bind_res (ArrayPtr_index (items_v v1) index) (\<lambda>it. Inr (it, v1, h1)))))))))))"

text \<open>The member function \<^verbatim>\<open>Reserve(size_t new_capacity)\<close>.\<close>

definition SimpleVector_Reserve ::
  "'a element_type \<Rightarrow> nat \<Rightarrow> SimpleVector \<times> 'a heap \<Rightarrow> error + (SimpleVector \<times> 'a heap)" where
  "SimpleVector_Reserve T new_capacity vh = (case vh of (v, h) \<Rightarrow>
     if new_capacity > capacity_v v then
       (case ArrayPtr_size T new_capacity h of (new_items, h1) \<Rightarrow>
        bind_res (end_it v) (\<lambda>e.
        bind_res (std_copy (begin_it v) e (Get new_items) h1) (\<lambda>h2.
        (case ArrayPtr_swap (items_v v, new_items) of (items1, new_items1) \<Rightarrow>
        (let v1 = v\<lparr>items_v := items1, capacity_v := new_capacity\<rparr> in
         bind_res (ArrayPtr_destroy new_items1 h2) (\<lambda>h3. Inr (v1, h3)))))))
     else Inr (v, h))"

text \<open>
  \<^verbatim>\<open>explicit SimpleVector(ReserveProxyObj obj)\<close>. The members take their default
  initialisers. In the body, the unqualified name \<^verbatim>\<open>Reserve\<close> is looked up in the class
  first, where it finds the member function; the free function of that name is hidden.
\<close>

definition SimpleVector_reserve ::
  "'a element_type \<Rightarrow> ReserveProxyObj \<Rightarrow> 'a heap \<Rightarrow> error + (SimpleVector \<times> 'a heap)" where
  "SimpleVector_reserve T obj h =
     SimpleVector_Reserve T (ReserveProxyObj_GetCapacity obj) (SimpleVector_default, h)"

text \<open>\<^verbatim>\<open>operator==\<close> and \<^verbatim>\<open>operator!=\<close>; \<^verbatim>\<open>&&\<close> does not evaluate its right side after false.\<close>

definition operator_eq :: "SimpleVector \<Rightarrow> SimpleVector \<Rightarrow> 'a heap \<Rightarrow> error + bool" where
  "operator_eq lhs rhs h =
     (if GetSize lhs = GetSize rhs then
        bind_res (end_it lhs) (\<lambda>e. std_equal (begin_it lhs) e (begin_it rhs) h)
      else Inr False)"

definition operator_ne :: "SimpleVector \<Rightarrow> SimpleVector \<Rightarrow> 'a heap \<Rightarrow> error + bool" where
  "operator_ne lhs rhs h = bind_res (operator_eq lhs rhs h) (\<lambda>b. Inr (\<not> b))"

section \<open>Objects\<close>

text \<open>
  The vectors a program holds, by address, over one heap. \<^verbatim>\<open>operator=\<close> and \<^verbatim>\<open>swap\<close> take
  their argument by reference, and the argument may be the object itself: they read and
  write the store in the order of the source. A local vector (\<^verbatim>\<open>tmp\<close>) is not in the store.
\<close>

record 'a world =
  vecs :: "nat \<Rightarrow> SimpleVector option"
  mem :: "'a heap"

text \<open>\<^verbatim>\<open>SimpleVector& operator=(SimpleVector&& rhs)\<close>.\<close>

definition operator_assign_move ::
  "'a element_type \<Rightarrow> nat \<Rightarrow> nat \<Rightarrow> 'a world \<Rightarrow> error + 'a world" where
  "operator_assign_move T this rhs w =
     (case (vecs w this, vecs w rhs) of
        (Some l, Some r) \<Rightarrow>
          bind_res (operator_ne l r (mem w)) (\<lambda>ne.
          if ne then
            (case SimpleVector_move r of (tmp, r1) \<Rightarrow>
            (let w1 = w\<lparr>vecs := (vecs w)(rhs \<mapsto> r1)\<rparr> in
             (case vecs w1 this of
                None \<Rightarrow> Inl UndefinedBehaviour
              | Some l1 \<Rightarrow>
                (case swap_vec (l1, tmp) of (l2, tmp2) \<Rightarrow>
                 bind_res (SimpleVector_destroy tmp2 (mem w1)) (\<lambda>h.
                 Inr (w1\<lparr>vecs := (vecs w1)(this \<mapsto> l2), mem := h\<rparr>))))))
          else Inr w)
      | _ \<Rightarrow> Inl UndefinedBehaviour)"

text \<open>\<^verbatim>\<open>SimpleVector& operator=(const SimpleVector& rhs)\<close>.\<close>

definition operator_assign_copy ::
  "'a element_type \<Rightarrow> nat \<Rightarrow> nat \<Rightarrow> 'a world \<Rightarrow> error + 'a world" where
  "operator_assign_copy T this rhs w =
     (case (vecs w this, vecs w rhs) of
        (Some l, Some r) \<Rightarrow>
          bind_res (operator_ne l r (mem w)) (\<lambda>ne.
          if ne then
            bind_res (SimpleVector_copy T r (mem w)) (\<lambda>(tmp, h1).
            (case swap_vec (l, tmp) of (l2, tmp2) \<Rightarrow>
             bind_res (SimpleVector_destroy tmp2 h1) (\<lambda>h.
             Inr (w\<lparr>vecs := (vecs w)(this \<mapsto> l2), mem := h\<rparr>))))
          else Inr w)
      | _ \<Rightarrow> Inl UndefinedBehaviour)"

text \<open>
  \<^verbatim>\<open>void swap(SimpleVector& other)\<close>. When \<open>other\<close> is the object itself, each of the three
  exchanges leaves it as it is.
\<close>

definition swap_objects :: "nat \<Rightarrow> nat \<Rightarrow> 'a world \<Rightarrow> error + 'a world" where
  "swap_objects this other w =
     (if this = other then (case vecs w this of None \<Rightarrow> Inl UndefinedBehaviour | Some v \<Rightarrow> Inr w)
      else (case (vecs w this, vecs w other) of
        (Some l, Some r) \<Rightarrow>
          (case swap_vec (l, r) of (l1, r1) \<Rightarrow>
             Inr (w\<lparr>vecs := (vecs w)(this \<mapsto> l1, other \<mapsto> r1)\<rparr>))
      | _ \<Rightarrow> Inl UndefinedBehaviour))"

text \<open>
  What a program does with its vectors, one statement at a time: it constructs a vector
  at an unused address, destroys one, calls a member function, assigns, or writes to an
  element through a reference or to an array of its own.
\<close>

datatype 'a operation =
    New_default nat
  | New_size nat nat
  | New_fill nat nat ptr
  | New_init nat "'a list"
  | New_reserve nat ReserveProxyObj
  | New_copy nat nat
  | New_move nat nat
  | Delete nat
  | Call_Clear nat
  | Call_Resize nat nat
  | Call_PushBack nat ptr
  | Call_PushBack_move nat ptr
  | Call_Insert nat ptr ptr
  | Call_Insert_move nat ptr ptr
  | Call_PopBack nat
  | Call_Erase nat ptr
  | Call_Reserve nat nat
  | Call_swap nat nat
  | Assign_copy nat nat
  | Assign_move nat nat
  | Write ptr 'a
  | Alloc nat

definition construct ::
  "nat \<Rightarrow> error + (SimpleVector \<times> 'a heap) \<Rightarrow> 'a world \<Rightarrow> error + 'a world" where
  "construct a r w = (case vecs w a of
      Some v \<Rightarrow> Inl UndefinedBehaviour
    | None \<Rightarrow> bind_res r (\<lambda>(v, h). Inr (w\<lparr>vecs := (vecs w)(a \<mapsto> v), mem := h\<rparr>)))"

definition call ::
  "nat \<Rightarrow> (SimpleVector \<times> 'a heap \<Rightarrow> error + (SimpleVector \<times> 'a heap)) \<Rightarrow> 'a world
     \<Rightarrow> error + 'a world" where
  "call a f w = (case vecs w a of
      None \<Rightarrow> Inl UndefinedBehaviour
    | Some v \<Rightarrow> bind_res (f (v, mem w)) (\<lambda>(v1, h). Inr (w\<lparr>vecs := (vecs w)(a \<mapsto> v1), mem := h\<rparr>)))"

fun apply_op :: "'a element_type \<Rightarrow> 'a operation \<Rightarrow> 'a world \<Rightarrow> error + 'a world" where
  "apply_op T (New_default a) w = construct a (Inr (SimpleVector_default, mem w)) w"
| "apply_op T (New_size a n) w = construct a (SimpleVector_size T n (mem w)) w"
| "apply_op T (New_fill a n val) w = construct a (SimpleVector_fill T n val (mem w)) w"
| "apply_op T (New_init a init) w = construct a (SimpleVector_init T init (mem w)) w"
| "apply_op T (New_reserve a obj) w = construct a (SimpleVector_reserve T obj (mem w)) w"
| "apply_op T (New_copy a b) w = (case vecs w b of
      None \<Rightarrow> Inl UndefinedBehaviour
    | Some other \<Rightarrow> construct a (SimpleVector_copy T other (mem w)) w)"
| "apply_op T (New_move a b) w = (case vecs w b of
      None \<Rightarrow> Inl UndefinedBehaviour
    | Some other \<Rightarrow> (case SimpleVector_move other of (v, rest) \<Rightarrow>
        construct a (Inr (v, mem w)) (w\<lparr>vecs := (vecs w)(b \<mapsto> rest)\<rparr>)))"
| "apply_op T (Delete a) w = (case vecs w a of
      None \<Rightarrow> Inl UndefinedBehaviour
    | Some v \<Rightarrow> bind_res (SimpleVector_destroy v (mem w)) (\<lambda>h.
        Inr (w\<lparr>vecs := (vecs w)(a := None), mem := h\<rparr>)))"
| "apply_op T (Call_Clear a) w = call a (\<lambda>(v, h). Inr (Clear v, h)) w"
| "apply_op T (Call_Resize a n) w = call a (Resize T n) w"
| "apply_op T (Call_PushBack a item) w = call a (PushBack T item) w"
| "apply_op T (Call_PushBack_move a item) w = call a (PushBack_move T item) w"
| "apply_op T (Call_Insert a pos val) w =
     call a (\<lambda>vh. bind_res (Insert T pos val vh) (\<lambda>(it, v1, h1). Inr (v1, h1))) w"
| "apply_op T (Call_Insert_move a pos val) w =
     call a (\<lambda>vh. bind_res (Insert_move T pos val vh) (\<lambda>(it, v1, h1). Inr (v1, h1))) w"
| "apply_op T (Call_PopBack a) w = call a (\<lambda>(v, h). bind_res (PopBack v) (\<lambda>v1. Inr (v1, h))) w"
| "apply_op T (Call_Erase a pos) w =
     call a (\<lambda>vh. bind_res (Erase T pos vh) (\<lambda>(it, v1, h1). Inr (v1, h1))) w"
| "apply_op T (Call_Reserve a n) w = call a (SimpleVector_Reserve T n) w"
| "apply_op T (Call_swap a b) w = swap_objects a b w"
| "apply_op T (Assign_copy a b) w = operator_assign_copy T a b w"
| "apply_op T (Assign_move a b) w = operator_assign_move T a b w"
| "apply_op T (Write p x) w = bind_res (store (mem w) p x) (\<lambda>h. Inr (w\<lparr>mem := h\<rparr>))"
| "apply_op T (Alloc n) w = Inr (w\<lparr>mem := snd (new_array T n (mem w))\<rparr>)"

fun run :: "'a element_type \<Rightarrow> 'a operation list \<Rightarrow> 'a world \<Rightarrow> error + 'a world" where
  "run T [] w = Inr w"
| "run T (x # xs) w = bind_res (apply_op T x w) (run T xs)"

section \<open>What a vector holds\<close>

text \<open>
  The array a vector owns, the elements it holds (the first \<open>size_v\<close> of the array), and
  the condition under which it holds them: the size is within the capacity, and the
  array was allocated, is live and is at least as long as the size.
\<close>

definition block_of :: "ptr \<Rightarrow> nat option" where
  "block_of p = (case p of Null \<Rightarrow> None | Ptr b i \<Rightarrow> Some b)"

definition buffer :: "'a heap \<Rightarrow> SimpleVector \<Rightarrow> 'a list option" where
  "buffer h v = (case raw_ptr (items_v v) of
      Null \<Rightarrow> Some []
    | Ptr b i \<Rightarrow> if i = 0 \<and> b < fresh h then cells h b else None)"

definition contents :: "'a heap \<Rightarrow> SimpleVector \<Rightarrow> 'a list" where
  "contents h v = (case buffer h v of None \<Rightarrow> [] | Some xs \<Rightarrow> take (size_v v) xs)"

definition valid :: "'a heap \<Rightarrow> SimpleVector \<Rightarrow> bool" where
  "valid h v = (size_v v \<le> capacity_v v \<and>
     (case buffer h v of None \<Rightarrow> False | Some xs \<Rightarrow> size_v v \<le> length xs))"

text \<open>A reference to an element of a live array.\<close>

definition live :: "'a heap \<Rightarrow> ptr \<Rightarrow> bool" where
  "live h p = (case p of
      Null \<Rightarrow> False
    | Ptr b i \<Rightarrow> b < fresh h \<and> (case cells h b of None \<Rightarrow> False | Some xs \<Rightarrow> i < length xs))"

text \<open>
  \<^verbatim>\<open>int\<close> as the element type: a move copies, \<^verbatim>\<open>int{}\<close> is 0, and the indeterminate
  content of a new array is taken to be 0 as well.
\<close>

definition int_type :: "int element_type" where
  "int_type = \<lparr>value_init = 0, default_init = 0, moved_from = (\<lambda>x. x)\<rparr>"

text \<open>A heap that holds one array of the caller, and a store with no vector yet.\<close>

definition heap_of :: "'a list \<Rightarrow> 'a heap" where
  "heap_of xs = \<lparr>cells = (\<lambda>b. None)(0 \<mapsto> xs), fresh = 1\<rparr>"

definition world_of :: "'a list \<Rightarrow> 'a world" where
  "world_of xs = \<lparr>vecs = (\<lambda>a. None), mem = heap_of xs\<rparr>"

text \<open>\<^verbatim>\<open>PushBack\<close> of each item in turn, with the capacity after each call.\<close>

fun push_backs ::
  "'a element_type \<Rightarrow> ptr list \<Rightarrow> SimpleVector \<times> 'a heap
     \<Rightarrow> error + (nat list \<times> SimpleVector \<times> 'a heap)" where
  "push_backs T [] vh = Inr ([], vh)"
| "push_backs T (item # items) vh =
     bind_res (PushBack T item vh) (\<lambda>vh1.
     bind_res (push_backs T items vh1) (\<lambda>(caps, vh2). Inr (GetCapacity (fst vh1) # caps, vh2)))"

text \<open>The vector at an address after a run of operations, if the run returns.\<close>

definition vec_at :: "error + 'a world \<Rightarrow> nat \<Rightarrow> SimpleVector option" where
  "vec_at r a = (case r of Inl e \<Rightarrow> None | Inr w \<Rightarrow> vecs w a)"

text \<open>An array that a step leaves as it was, in a heap that only grows.\<close>

definition same_at :: "nat \<Rightarrow> 'a heap \<Rightarrow> 'a heap \<Rightarrow> bool" where
  "same_at c h h' = (cells h' c = cells h c \<and> fresh h \<le> fresh h')"

text \<open>
  The size is within the capacity, and a vector without an array is empty; and every
  vector of a store is so.
\<close>

definition sizes_ok :: "SimpleVector \<Rightarrow> bool" where
  "sizes_ok v = (size_v v \<le> capacity_v v \<and> (raw_ptr (items_v v) = Null \<longrightarrow> size_v v = 0))"

definition all_ok :: "'a world \<Rightarrow> bool" where
  "all_ok w = (\<forall>a v. vecs w a = Some v \<longrightarrow> sizes_ok v)"

text \<open>
  The element at index \<open>j\<close> after \<^verbatim>\<open>std::move_backward\<close> has moved \<open>k\<close> elements of \<open>xs\<close> one
  place to the right, the last of them into index \<open>s\<close>: a moved element above the gap,
  the moved-from state in the gap, the old element everywhere else.
\<close>

definition shifted :: "('a \<Rightarrow> 'a) \<Rightarrow> 'a list \<Rightarrow> nat \<Rightarrow> nat \<Rightarrow> nat \<Rightarrow> 'a" where
  "shifted m xs s k j =
     (if s - k < j \<and> j \<le> s then xs ! (j - 1)
      else if j = s - k \<and> 0 < k then m (xs ! j) else xs ! j)"









section \<open>Basic facts\<close>

lemma bind_res_Inl [simp]: "bind_res (Inl e) f = Inl e"
  by (simp add: bind_res_def)

lemma bind_res_Inr [simp]: "bind_res (Inr x) f = f x"
  by (simp add: bind_res_def)

lemma bind_res_eq_Inr: "(bind_res m f = Inr y) = (\<exists>x. m = Inr x \<and> f x = Inr y)"
  by (cases m) simp_all

lemma for_loop_done: "\<not> i < n \<Longrightarrow> for_loop i n body s = Inr s"
  by (simp add: for_loop.simps)

lemma for_loop_step:
  "i < n \<Longrightarrow> for_loop i n body s = bind_res (body i s) (for_loop (Suc i) n body)"
  by (subst for_loop.simps) (simp add: bind_res_def)

lemmas pointer_defs = ptr_add_def ptr_sub_def ptr_diff_def ptr_le_def ptr_less_def to_size_t_def
  range_length_def

lemmas memory_defs = load_def store_def copy_assign_def move_assign_def new_array_def
  delete_array_def

lemmas algorithm_defs = std_copy_def std_copy_init_def std_fill_def std_generate_def
  std_move_def std_move_backward_def std_equal_def

lemmas ArrayPtr_defs = ArrayPtr_default_def ArrayPtr_size_def ArrayPtr_move_def Get_def
  ArrayPtr_index_def ArrayPtr_swap_def ArrayPtr_destroy_def

lemmas observer_defs = GetSize_def GetCapacity_def IsEmpty_def begin_it_def end_it_def
  cbegin_def cend_def

lemmas constructor_defs = SimpleVector_default_def SimpleVector_move_def SimpleVector_copy_def
  SimpleVector_size_def SimpleVector_fill_def SimpleVector_init_def SimpleVector_reserve_def
  Reserve_def ReserveProxyObj_GetCapacity_def SimpleVector_destroy_def

lemmas mutator_defs = swap_vec_def Clear_def Resize_def PushBack_def PushBack_move_def
  Insert_def Insert_move_def PopBack_def Erase_def SimpleVector_Reserve_def

text \<open>Everything needed to run the operations on a given heap.\<close>

lemmas run_defs = pointer_defs memory_defs algorithm_defs ArrayPtr_defs observer_defs
  constructor_defs mutator_defs for_loop.simps equal_loop.simps operator_eq_def operator_ne_def
  Let_def heap_of_def world_of_def int_type_def contents_def buffer_def eval_nat_numeral

section \<open>The reserving constructor\<close>

text \<open>
  C1. For every capacity \<open>n\<close> and on every heap, constructing a vector from the marker
  that the free function \<open>Reserve\<close> makes for \<open>n\<close> returns a vector of size 0 and
  capacity \<open>n\<close>.
\<close>

theorem reserve_constructor_size_capacity:
  "\<exists>v h'. SimpleVector_reserve T (Reserve n) h = Inr (v, h') \<and>
     GetSize v = 0 \<and> GetCapacity v = n"
  by (simp add: constructor_defs mutator_defs ArrayPtr_defs observer_defs pointer_defs
      algorithm_defs memory_defs for_loop.simps)

section \<open>Unchecked access\<close>

text \<open>
  C6. The assertion of \<^verbatim>\<open>operator[]\<close> fails exactly for the indices above the size, so it
  accepts the index equal to the size: on the vector \<open>{1, 2, 3}\<close> the call \<open>v[3]\<close> passes
  the assertion and yields a reference one past the end of the array, where no element
  can be read.
\<close>

theorem operator_index_accepts_size:
  "(operator_index v i = Inl AssertionFailed) = (size_v v < i) \<and>
   (\<exists>v h. SimpleVector_init int_type [1, 2, 3] (heap_of []) = Inr (v, h) \<and> GetSize v = 3 \<and>
      operator_index v 3 = Inr (Ptr 1 3) \<and> load h (Ptr 1 3) = Inl UndefinedBehaviour)"
proof (rule conjI)
  show "(operator_index v i = Inl AssertionFailed) = (size_v v < i)"
    by (auto simp: operator_index_def ArrayPtr_index_def ptr_add_def split: ptr.splits)
  show "\<exists>v h. SimpleVector_init int_type [1, 2, 3] (heap_of []) = Inr (v, h) \<and> GetSize v = 3 \<and>
      operator_index v 3 = Inr (Ptr 1 3) \<and> load h (Ptr 1 3) = Inl UndefinedBehaviour"
    by (simp add: run_defs operator_index_def)
qed

section \<open>Valid vectors\<close>

lemma valid_cases:
  assumes "valid h v"
  obtains (null) "raw_ptr (items_v v) = Null" "size_v v = 0"
  | (array) b xs where "raw_ptr (items_v v) = Ptr b 0" "b < fresh h" "cells h b = Some xs"
      "size_v v \<le> length xs" "size_v v \<le> capacity_v v"
  using assms
  by (auto simp: valid_def buffer_def split: ptr.splits option.splits if_splits)

lemma destroy_valid: "valid h v \<Longrightarrow> \<exists>h'. SimpleVector_destroy v h = Inr h'"
  by (erule valid_cases)
    (simp_all add: SimpleVector_destroy_def ArrayPtr_destroy_def delete_array_def)

lemma swap_vec_eq: "swap_vec (v, other) = (other, v)"
  by (simp add: swap_vec_def ArrayPtr_swap_def Let_def)

section \<open>Checked access\<close>

text \<open>
  C8. For every valid vector and every index \<open>i\<close>, \<open>At\<close> throws \<open>OutOfRange\<close> if and only
  if \<open>i\<close> is at least the size, and otherwise returns the reference to the element at
  index \<open>i\<close>. \<open>At\<close> only reads the vector: it returns no new state.
\<close>

theorem At_checked:
  "valid h v \<Longrightarrow>
     (At v i = Inl OutOfRange) = (size_v v \<le> i) \<and>
     (if i < size_v v then \<exists>p. At v i = Inr p \<and> load h p = Inr (contents h v ! i)
      else At v i = Inl OutOfRange)"
  by (erule valid_cases)
    (auto simp: At_def ArrayPtr_index_def ptr_add_def load_def contents_def buffer_def)

text \<open>On a vector of length 3, \<open>at(3)\<close> fails and \<open>at(0)\<close> returns element 0.\<close>

theorem At_checked_witness:
  "\<exists>v h. SimpleVector_init int_type [7, 8, 9] (heap_of []) = Inr (v, h) \<and> valid h v \<and>
     At v 3 = Inl OutOfRange \<and> (\<exists>p. At v 0 = Inr p \<and> load h p = Inr 7)"
proof -
  let ?v = "\<lparr>size_v = 3, capacity_v = 3, items_v = \<lparr>raw_ptr = Ptr 1 0\<rparr>\<rparr>"
  let ?h = "\<lparr>cells = ((\<lambda>b. None)(0 \<mapsto> []))(1 \<mapsto> [7, 8, 9 :: int]), fresh = 2\<rparr>"
  have r: "SimpleVector_init int_type [7, 8, 9] (heap_of []) = Inr (?v, ?h)"
    by (simp add: run_defs)
  have ok: "valid ?h ?v" by (simp add: valid_def buffer_def)
  have c: "contents ?h ?v ! 0 = 7" by (simp add: contents_def buffer_def)
  from At_checked [OF ok, of 3] At_checked [OF ok, of 0] r ok c show ?thesis by auto
qed

section \<open>Comparison of a vector with itself\<close>

lemma equal_loop_same:
  "cells h b = Some xs \<Longrightarrow> n \<le> length xs \<Longrightarrow> equal_loop i n (Ptr b 0) (Ptr b 0) h = Inr True"
proof (induction "n - i" arbitrary: i)
  case 0
  then show ?case by (subst equal_loop.simps) simp
next
  case (Suc d)
  then have "i < n" "d = n - Suc i" by auto
  with Suc show ?case
    by (subst equal_loop.simps) (simp add: ptr_add_def load_def)
qed

lemma operator_eq_same: "valid h v \<Longrightarrow> operator_eq v v h = Inr True"
proof (erule valid_cases)
  assume "raw_ptr (items_v v) = Null" "size_v v = 0"
  then show ?thesis
    by (simp add: operator_eq_def observer_defs Get_def pointer_defs std_equal_def
        equal_loop.simps)
next
  fix b xs
  assume "raw_ptr (items_v v) = Ptr b 0" "cells h b = Some xs" "size_v v \<le> length xs"
  then show ?thesis
    by (simp add: operator_eq_def observer_defs Get_def pointer_defs std_equal_def
        equal_loop_same)
qed

lemma equal_loop_refl: "equal_loop i n p p h = Inr b \<Longrightarrow> b"
proof (induction "n - i" arbitrary: i)
  case 0
  then show ?case by (subst (asm) equal_loop.simps) simp
next
  case (Suc d)
  then have "i < n" "d = n - Suc i" by auto
  with Suc.prems Suc.hyps(1) show ?case
    by (subst (asm) equal_loop.simps) (auto split: sum.splits)
qed

lemma operator_ne_same: "operator_ne v v h \<noteq> Inr True"
  by (auto simp: operator_ne_def operator_eq_def std_equal_def bind_res_eq_Inr
      dest: equal_loop_refl)

section \<open>Self-assignment\<close>

text \<open>
  C10. For every valid vector \<open>v\<close> at an address \<open>a\<close>, the copy assignment \<open>v = v\<close> and the
  move assignment \<open>v = std::move(v)\<close> return and leave the whole state as it was: the
  vector's size, capacity and array, and every element.
\<close>

theorem self_assignment_no_op:
  "vecs w a = Some v \<Longrightarrow> valid (mem w) v \<Longrightarrow>
     operator_assign_copy T a a w = Inr w \<and> operator_assign_move T a a w = Inr w"
  by (simp add: operator_assign_copy_def operator_assign_move_def operator_ne_def
      operator_eq_same)

theorem self_assignment_no_op_witness:
  "\<exists>w v. run int_type [New_init 0 [1, 2, 3]] (world_of []) = Inr w \<and> vecs w 0 = Some v \<and>
     valid (mem w) v \<and> contents (mem w) v = [1, 2, 3] \<and>
     operator_assign_copy int_type 0 0 w = Inr w \<and> operator_assign_move int_type 0 0 w = Inr w"
proof -
  let ?v = "\<lparr>size_v = 3, capacity_v = 3, items_v = \<lparr>raw_ptr = Ptr 1 0\<rparr>\<rparr>"
  let ?w = "\<lparr>vecs = (\<lambda>a. None)(0 \<mapsto> ?v),
             mem = \<lparr>cells = ((\<lambda>b. None)(0 \<mapsto> []))(1 \<mapsto> [1, 2, 3 :: int]), fresh = 2\<rparr>\<rparr>"
  have r: "run int_type [New_init 0 [1, 2, 3]] (world_of []) = Inr ?w"
    by (simp add: construct_def run_defs)
  have v: "vecs ?w 0 = Some ?v" by simp
  have ok: "valid (mem ?w) ?v" by (simp add: valid_def buffer_def)
  have c: "contents (mem ?w) ?v = [1, 2, 3]" by (simp add: contents_def buffer_def)
  from r v ok c self_assignment_no_op [OF v ok, of int_type] show ?thesis by blast
qed

section \<open>Moving from a vector\<close>

lemma SimpleVector_move_rest: "snd (SimpleVector_move other) = SimpleVector_default"
  by (simp add: SimpleVector_move_def ArrayPtr_move_def SimpleVector_default_def
      ArrayPtr_default_def Let_def)

lemma SimpleVector_move_new: "fst (SimpleVector_move other) = other"
  by (simp add: SimpleVector_move_def ArrayPtr_move_def Let_def)

text \<open>
  C3, as the code has it. The move constructor leaves its source default-constructed:
  size 0, capacity 0, null array. The move assignment does so when the destination
  (a valid vector) does not compare equal to the source, and then the destination takes
  over the source's size, capacity and array; when the two compare equal, the guard
  \<^verbatim>\<open>*this != rhs\<close> skips the move and nothing changes.
\<close>

theorem moved_from_is_default:
  "snd (SimpleVector_move other) = SimpleVector_default \<and>
   (vecs w this = Some l \<longrightarrow> vecs w rhs = Some r \<longrightarrow> valid (mem w) l \<longrightarrow>
      (operator_ne l r (mem w) = Inr True \<longrightarrow>
         (\<exists>w'. operator_assign_move T this rhs w = Inr w' \<and>
            vecs w' rhs = Some SimpleVector_default \<and> vecs w' this = Some r)) \<and>
      (operator_ne l r (mem w) = Inr False \<longrightarrow> operator_assign_move T this rhs w = Inr w))"
proof (intro conjI impI)
  show "snd (SimpleVector_move other) = SimpleVector_default"
    by (rule SimpleVector_move_rest)
next
  assume a: "vecs w this = Some l" "vecs w rhs = Some r" "valid (mem w) l"
    "operator_ne l r (mem w) = Inr True"
  then have ne: "this \<noteq> rhs" using operator_ne_same [of l "mem w"] by auto
  obtain h' where h': "SimpleVector_destroy l (mem w) = Inr h'"
    using destroy_valid a(3) by blast
  have m: "SimpleVector_move r = (r, SimpleVector_default)"
    using SimpleVector_move_rest [of r] SimpleVector_move_new [of r] by (simp add: prod_eq_iff)
  show "\<exists>w'. operator_assign_move T this rhs w = Inr w' \<and>
            vecs w' rhs = Some SimpleVector_default \<and> vecs w' this = Some r"
    using a ne h' by (simp add: operator_assign_move_def m swap_vec_eq)
next
  assume "vecs w this = Some l" "vecs w rhs = Some r" "operator_ne l r (mem w) = Inr False"
  then show "operator_assign_move T this rhs w = Inr w"
    by (simp add: operator_assign_move_def)
qed

text \<open>Moving \<open>{3}\<close> into \<open>{1, 2}\<close> empties the source and hands its array over.\<close>

theorem moved_from_is_default_witness:
  "\<exists>w l r. run int_type [New_init 0 [1, 2], New_init 1 [3]] (world_of []) = Inr w \<and>
     vecs w 0 = Some l \<and> vecs w 1 = Some r \<and> valid (mem w) l \<and>
     operator_ne l r (mem w) = Inr True \<and>
     (\<exists>w'. operator_assign_move int_type 0 1 w = Inr w' \<and>
        vecs w' 1 = Some SimpleVector_default \<and> vecs w' 0 = Some r)"
proof -
  let ?l = "\<lparr>size_v = 2, capacity_v = 2, items_v = \<lparr>raw_ptr = Ptr 1 0\<rparr>\<rparr>"
  let ?r = "\<lparr>size_v = 1, capacity_v = 1, items_v = \<lparr>raw_ptr = Ptr 2 0\<rparr>\<rparr>"
  let ?w = "\<lparr>vecs = (\<lambda>a. None)(0 \<mapsto> ?l, 1 \<mapsto> ?r),
             mem = \<lparr>cells = ((\<lambda>b. None)(0 \<mapsto> []))(1 \<mapsto> [1, 2 :: int], 2 \<mapsto> [3]), fresh = 3\<rparr>\<rparr>"
  have r: "run int_type [New_init 0 [1, 2], New_init 1 [3]] (world_of []) = Inr ?w"
    by (simp add: construct_def run_defs)
  have l: "vecs ?w 0 = Some ?l" and r': "vecs ?w 1 = Some ?r" by simp_all
  have ok: "valid (mem ?w) ?l" by (simp add: valid_def buffer_def)
  have ne: "operator_ne ?l ?r (mem ?w) = Inr True" by (simp add: run_defs)
  from moved_from_is_default [of ?l ?w 0 ?l 1 ?r int_type] l r' ok ne
  have "\<exists>w'. operator_assign_move int_type 0 1 ?w = Inr w' \<and>
          vecs w' 1 = Some SimpleVector_default \<and> vecs w' 0 = Some ?r"
    by blast
  with r l r' ok ne show ?thesis by blast
qed

text \<open>
  The claim as written fails when the destination holds equal elements: after
  \<open>a = std::move(b)\<close> with \<open>a\<close> and \<open>b\<close> both \<open>{5}\<close>, \<open>b\<close> still has size 1, capacity 1 and
  its array.
\<close>

theorem moved_from_equal_counterexample:
  "vec_at (run int_type [New_init 0 [5], New_init 1 [5], Assign_move 0 1] (world_of [])) 1
     = Some \<lparr>size_v = 1, capacity_v = 1, items_v = \<lparr>raw_ptr = Ptr 2 0\<rparr>\<rparr>"
  by (simp add: vec_at_def construct_def operator_assign_move_def run_defs)

section \<open>Resize within the capacity\<close>

lemma heap_cells_same: "cells h b = Some xs \<Longrightarrow> h\<lparr>cells := (cells h)(b \<mapsto> xs)\<rparr> = h"
  by (simp add: fun_upd_idem)

lemma store_array:
  "cells h b = Some xs \<Longrightarrow> i < length xs \<Longrightarrow>
     store h (Ptr b i) x = Inr (h\<lparr>cells := (cells h)(b \<mapsto> xs[i := x])\<rparr>)"
  by (simp add: store_def)

lemma load_array: "cells h b = Some xs \<Longrightarrow> i < length xs \<Longrightarrow> load h (Ptr b i) = Inr (xs ! i)"
  by (simp add: load_def)

lemma fill_step:
  "i < n \<Longrightarrow> n \<le> length xs \<Longrightarrow>
     take (Suc i) (xs[i := d]) @ replicate (n - Suc i) d @ drop n (xs[i := d])
       = take i xs @ replicate (n - i) d @ drop n xs"
proof -
  assume a: "i < n" "n \<le> length xs"
  then have "take (Suc i) (xs[i := d]) = take i xs @ [d]"
    by (simp add: take_Suc_conv_app_nth)
  moreover from a have "replicate (n - i) d = d # replicate (n - Suc i) d"
    by (simp add: Suc_diff_Suc flip: replicate_Suc)
  moreover from a have "drop n (xs[i := d]) = drop n xs" by simp
  ultimately show ?thesis by simp
qed

lemma fill_loop:
  "cells h b = Some xs \<Longrightarrow> i \<le> n \<Longrightarrow> n \<le> length xs \<Longrightarrow>
     for_loop i n (\<lambda>j h'. bind_res (ptr_add (Ptr b 0) j) (\<lambda>dst. store h' dst d)) h
       = Inr (h\<lparr>cells := (cells h)(b \<mapsto> take i xs @ replicate (n - i) d @ drop n xs)\<rparr>)"
proof (induction "n - i" arbitrary: i h xs)
  case 0
  then have e: "take i xs @ replicate (n - i) d @ drop n xs = xs" by simp
  have "h\<lparr>cells := (cells h)(b \<mapsto> xs)\<rparr> = h"
    using 0 by (intro heap_cells_same)
  with 0 show ?case unfolding e by (simp only: for_loop_done less_irrefl diff_is_0_eq
        not_False_eq_True simp_thms)
next
  case (Suc k)
  then have lt: "i < n" and k: "k = n - Suc i" by auto
  let ?h1 = "h\<lparr>cells := (cells h)(b \<mapsto> xs[i := d])\<rparr>"
  have st: "store h (Ptr b i) d = Inr ?h1"
    using Suc.prems lt by (simp add: store_array)
  have "for_loop (Suc i) n (\<lambda>j h'. bind_res (ptr_add (Ptr b 0) j) (\<lambda>dst. store h' dst d)) ?h1
      = Inr (?h1\<lparr>cells := (cells ?h1)(b \<mapsto> take (Suc i) (xs[i := d]) @
          replicate (n - Suc i) d @ drop n (xs[i := d]))\<rparr>)"
    using Suc.prems lt by (intro Suc.hyps(1) k) simp_all
  then have "for_loop (Suc i) n (\<lambda>j h'. bind_res (ptr_add (Ptr b 0) j) (\<lambda>dst. store h' dst d)) ?h1
      = Inr (?h1\<lparr>cells := (cells ?h1)(b \<mapsto> take i xs @ replicate (n - i) d @ drop n xs)\<rparr>)"
    using fill_step [of i n xs d] lt Suc.prems by (simp only:)
  then show ?case
    using lt st by (simp add: for_loop_step ptr_add_def)
qed

lemma Resize_within:
  assumes "raw_ptr (items_v v) = Ptr b 0" "cells h b = Some xs"
    "size_v v < n" "n \<le> capacity_v v" "n \<le> length xs"
  shows "Resize T n (v, h) = Inr (v\<lparr>size_v := n\<rparr>,
     h\<lparr>cells := (cells h)(b \<mapsto> take (size_v v) xs @ replicate (n - size_v v) (value_init T)
        @ drop n xs)\<rparr>)"
  using assms by (simp add: Resize_def ArrayPtr_index_def fill_loop)

text \<open>
  C9. For every valid vector and every \<open>k\<close> up to its size, \<open>Resize(k)\<close> followed by
  \<open>Resize\<close> to the old size returns, restores the size (and keeps the capacity), keeps
  the first \<open>k\<close> elements, and leaves the value \<^verbatim>\<open>Type{}\<close> at every index from \<open>k\<close> up to the
  old size, whatever was there before.
\<close>

theorem resize_round_trip:
  assumes "valid h v" "k \<le> size_v v"
  shows "\<exists>v' h'. bind_res (Resize T k (v, h)) (Resize T (size_v v)) = Inr (v', h') \<and>
     valid h' v' \<and> size_v v' = size_v v \<and> capacity_v v' = capacity_v v \<and>
     take k (contents h' v') = take k (contents h v) \<and>
     drop k (contents h' v') = replicate (size_v v - k) (value_init T)"
proof (cases "k = size_v v")
  case True
  then show ?thesis using assms by (simp add: Resize_def contents_def valid_def split: option.splits)
next
  case False
  with assms have lt: "k < size_v v" by simp
  from assms(1) show ?thesis
  proof (cases rule: valid_cases)
    case null
    with lt show ?thesis by simp
  next
    case (array b xs)
    let ?v1 = "v\<lparr>size_v := k\<rparr>"
    let ?ys = "take k xs @ replicate (size_v v - k) (value_init T) @ drop (size_v v) xs"
    let ?h' = "h\<lparr>cells := (cells h)(b \<mapsto> ?ys)\<rparr>"
    have 1: "Resize T k (v, h) = Inr (?v1, h)"
      using lt by (simp add: Resize_def)
    have 2: "Resize T (size_v v) (?v1, h) = Inr (?v1\<lparr>size_v := size_v v\<rparr>, ?h')"
      using Resize_within [of ?v1 b h xs "size_v v" T] array lt by simp
    have 3: "?v1\<lparr>size_v := size_v v\<rparr> = v" by simp
    have len: "length ?ys = length xs" using array lt by simp
    have c': "contents ?h' v = take k xs @ replicate (size_v v - k) (value_init T)"
      using array lt by (simp add: contents_def buffer_def)
    have c: "contents h v = take (size_v v) xs"
      using array by (simp add: contents_def buffer_def)
    have ok: "valid ?h' v"
      using array len by (simp add: valid_def buffer_def)
    show ?thesis
      using 1 2 3 c c' ok array lt by (simp add: min_absorb2)
  qed
qed

text \<open>\<open>{7, 8, 9}\<close>, resized to 1 and back to 3, is \<open>{7, 0, 0}\<close>.\<close>

theorem resize_round_trip_witness:
  "\<exists>v h. SimpleVector_init int_type [7, 8, 9] (heap_of []) = Inr (v, h) \<and> valid h v \<and>
     1 \<le> size_v v \<and>
     (\<exists>v' h'. bind_res (Resize int_type 1 (v, h)) (Resize int_type (size_v v)) = Inr (v', h') \<and>
        size_v v' = 3 \<and> take 1 (contents h' v') = [7] \<and> drop 1 (contents h' v') = [0, 0])"
proof -
  let ?v = "\<lparr>size_v = 3, capacity_v = 3, items_v = \<lparr>raw_ptr = Ptr 1 0\<rparr>\<rparr>"
  let ?h = "\<lparr>cells = ((\<lambda>b. None)(0 \<mapsto> []))(1 \<mapsto> [7, 8, 9 :: int]), fresh = 2\<rparr>"
  have r: "SimpleVector_init int_type [7, 8, 9] (heap_of []) = Inr (?v, ?h)"
    by (simp add: run_defs)
  have ok: "valid ?h ?v" by (simp add: valid_def buffer_def)
  have le: "1 \<le> size_v ?v" by simp
  have c: "contents ?h ?v = [7, 8, 9]" by (simp add: contents_def buffer_def)
  from resize_round_trip [OF ok le, of int_type] obtain v' h' where
    "bind_res (Resize int_type 1 (?v, ?h)) (Resize int_type (size_v ?v)) = Inr (v', h')"
    "size_v v' = size_v ?v" "take 1 (contents h' v') = take 1 (contents ?h ?v)"
    "drop 1 (contents h' v') = replicate (size_v ?v - 1) (value_init int_type)"
    by blast
  then have "bind_res (Resize int_type 1 (?v, ?h)) (Resize int_type (size_v ?v)) = Inr (v', h') \<and>
        size_v v' = 3 \<and> take 1 (contents h' v') = [7] \<and> drop 1 (contents h' v') = [0, 0]"
    unfolding c by (simp add: int_type_def eval_nat_numeral)
  then have "\<exists>v' h'. bind_res (Resize int_type 1 (?v, ?h)) (Resize int_type (size_v ?v)) = Inr (v', h') \<and>
        size_v v' = 3 \<and> take 1 (contents h' v') = [7] \<and> drop 1 (contents h' v') = [0, 0]"
    by blast
  with r ok le show ?thesis by blast
qed

section \<open>Growth\<close>

lemma SimpleVector_size_exact:
  "SimpleVector_size T n h =
     (if n = 0 then Inr (\<lparr>size_v = 0, capacity_v = 0, items_v = \<lparr>raw_ptr = Null\<rparr>\<rparr>, h)
      else Inr (\<lparr>size_v = n, capacity_v = n, items_v = \<lparr>raw_ptr = Ptr (fresh h) 0\<rparr>\<rparr>,
        h\<lparr>cells := (cells h)(fresh h \<mapsto> replicate n (value_init T)), fresh := Suc (fresh h)\<rparr>))"
proof (cases "n = 0")
  case True
  then show ?thesis
    by (simp add: SimpleVector_size_def ArrayPtr_size_def Get_def pointer_defs std_generate_def
        for_loop_done)
next
  case False
  let ?h1 = "h\<lparr>cells := (cells h)(fresh h \<mapsto> replicate n (default_init T)), fresh := Suc (fresh h)\<rparr>"
  have "for_loop 0 n (\<lambda>j h'. bind_res (ptr_add (Ptr (fresh h) 0) j) (\<lambda>dst. store h' dst (value_init T))) ?h1
      = Inr (?h1\<lparr>cells := (cells ?h1)(fresh h \<mapsto> take 0 (replicate n (default_init T)) @
           replicate (n - 0) (value_init T) @ drop n (replicate n (default_init T)))\<rparr>)"
    by (rule fill_loop) simp_all
  with False show ?thesis
    by (simp add: SimpleVector_size_def ArrayPtr_size_def new_array_def Get_def pointer_defs
        std_generate_def)
qed

lemma drop_take_step:
  assumes "i < s" "s \<le> length xs"
  shows "take (s - i) (drop i xs) = xs ! i # take (s - Suc i) (drop (Suc i) xs)"
proof -
  from assms have d: "drop i xs = xs ! i # drop (Suc i) xs"
    by (simp add: Cons_nth_drop_Suc)
  from assms have "s - i = Suc (s - Suc i)" by simp
  then show ?thesis unfolding d by simp
qed

lemma move_step_dst:
  assumes "i < s" "s \<le> length xs" "s \<le> length ys"
  shows "take (Suc i) (ys[i := xs ! i]) @ take (s - Suc i) (drop (Suc i) (xs[i := z])) @
           drop s (ys[i := xs ! i])
         = take i ys @ take (s - i) (drop i xs) @ drop s ys"
  using assms by (simp add: drop_take_step take_Suc_conv_app_nth)

lemma move_step_src:
  assumes "i < s" "s \<le> length xs"
  shows "take (Suc i) (xs[i := m (xs ! i)]) @
           map m (take (s - Suc i) (drop (Suc i) (xs[i := m (xs ! i)]))) @
           drop s (xs[i := m (xs ! i)])
         = take i xs @ map m (take (s - i) (drop i xs)) @ drop s xs"
  using assms by (simp add: drop_take_step take_Suc_conv_app_nth)

lemma move_loop:
  "b \<noteq> f \<Longrightarrow> cells h f = Some ys \<Longrightarrow> cells h b = Some xs \<Longrightarrow> i \<le> s \<Longrightarrow>
   s \<le> length xs \<Longrightarrow> s \<le> length ys \<Longrightarrow>
     for_loop i s (\<lambda>j h'. bind_res (ptr_add (Ptr f 0) j) (\<lambda>dst.
        bind_res (ptr_add (Ptr b 0) j) (\<lambda>src. move_assign T h' dst src))) h
       = Inr (h\<lparr>cells := (cells h)
           (f \<mapsto> take i ys @ take (s - i) (drop i xs) @ drop s ys,
            b \<mapsto> take i xs @ map (moved_from T) (take (s - i) (drop i xs)) @ drop s xs)\<rparr>)"
proof (induction "s - i" arbitrary: i h xs ys)
  case 0
  then have "i = s" by simp
  have "(cells h)(f \<mapsto> ys, b \<mapsto> xs) = cells h"
    using 0 by (auto simp: fun_eq_iff)
  then have e: "h\<lparr>cells := (cells h)(f \<mapsto> ys, b \<mapsto> xs)\<rparr> = h" by simp
  have t: "take i ys @ take (s - i) (drop i xs) @ drop s ys = ys"
    "take i xs @ map (moved_from T) (take (s - i) (drop i xs)) @ drop s xs = xs"
    using \<open>i = s\<close> by simp_all
  show ?case unfolding t e using \<open>i = s\<close> by (simp only: for_loop_done less_irrefl not_False_eq_True)
next
  case (Suc k)
  then have lt: "i < s" and k: "k = s - Suc i" by auto
  let ?ys = "ys[i := xs ! i]"
  let ?xs = "xs[i := moved_from T (xs ! i)]"
  let ?h2 = "h\<lparr>cells := (cells h)(f \<mapsto> ?ys, b \<mapsto> ?xs)\<rparr>"
  have st: "move_assign T h (Ptr f i) (Ptr b i) = Inr ?h2"
    using Suc.prems lt by (simp add: move_assign_def load_def store_def)
  have "for_loop (Suc i) s (\<lambda>j h'. bind_res (ptr_add (Ptr f 0) j) (\<lambda>dst.
        bind_res (ptr_add (Ptr b 0) j) (\<lambda>src. move_assign T h' dst src))) ?h2
      = Inr (?h2\<lparr>cells := (cells ?h2)
           (f \<mapsto> take (Suc i) ?ys @ take (s - Suc i) (drop (Suc i) ?xs) @ drop s ?ys,
            b \<mapsto> take (Suc i) ?xs @ map (moved_from T) (take (s - Suc i) (drop (Suc i) ?xs)) @
              drop s ?xs)\<rparr>)"
    using Suc.prems lt by (intro Suc.hyps(1) k) simp_all
  then have "for_loop (Suc i) s (\<lambda>j h'. bind_res (ptr_add (Ptr f 0) j) (\<lambda>dst.
        bind_res (ptr_add (Ptr b 0) j) (\<lambda>src. move_assign T h' dst src))) ?h2
      = Inr (?h2\<lparr>cells := (cells ?h2)
           (f \<mapsto> take i ys @ take (s - i) (drop i xs) @ drop s ys,
            b \<mapsto> take i xs @ map (moved_from T) (take (s - i) (drop i xs)) @ drop s xs)\<rparr>)"
    using move_step_dst [of i s xs ys "moved_from T (xs ! i)"]
      move_step_src [of i s xs "moved_from T"] lt Suc.prems
    by (simp only:)
  moreover have "(cells ?h2)(f \<mapsto> A, b \<mapsto> B) = (cells h)(f \<mapsto> A, b \<mapsto> B)" for A B
    by (auto simp: fun_eq_iff)
  ultimately show ?case
    using lt st by (simp add: for_loop_step ptr_add_def)
qed


lemma Resize_grow_null:
  assumes "raw_ptr (items_v v) = Null" "size_v v = 0" "capacity_v v < n"
  shows "Resize T n (v, h) =
     Inr (\<lparr>size_v = n, capacity_v = max (capacity_v v * 2) n,
            items_v = \<lparr>raw_ptr = Ptr (fresh h) 0\<rparr>\<rparr>,
          h\<lparr>cells := (cells h)(fresh h \<mapsto> replicate (max (capacity_v v * 2) n) (value_init T)),
            fresh := Suc (fresh h)\<rparr>)"
  using assms
  by (simp add: Resize_def SimpleVector_size_exact for_loop_done swap_vec_eq
      SimpleVector_destroy_def ArrayPtr_destroy_def delete_array_def Let_def)

lemma Resize_grow_array:
  assumes "raw_ptr (items_v v) = Ptr b 0" "b < fresh h" "cells h b = Some xs"
    "size_v v \<le> length xs" "size_v v \<le> capacity_v v" "capacity_v v < n"
  shows "Resize T n (v, h) =
     Inr (\<lparr>size_v = n, capacity_v = max (capacity_v v * 2) n,
            items_v = \<lparr>raw_ptr = Ptr (fresh h) 0\<rparr>\<rparr>,
          h\<lparr>cells := ((cells h)(fresh h \<mapsto> take (size_v v) xs @
               replicate (max (capacity_v v * 2) n - size_v v) (value_init T)))(b := None),
            fresh := Suc (fresh h)\<rparr>)"
proof -
  let ?c = "max (capacity_v v * 2) n"
  let ?f = "fresh h"
  let ?ys = "replicate ?c (value_init T)"
  let ?h1 = "h\<lparr>cells := (cells h)(?f \<mapsto> ?ys), fresh := Suc ?f\<rparr>"
  let ?A = "take (size_v v) xs @ replicate (?c - size_v v) (value_init T)"
  let ?B = "map (moved_from T) (take (size_v v) xs) @ drop (size_v v) xs"
  have bf: "b \<noteq> ?f" using assms by simp
  have c: "?c \<noteq> 0" "size_v v \<le> ?c" using assms by simp_all
  have "for_loop 0 (size_v v) (\<lambda>j h'. bind_res (ptr_add (Ptr ?f 0) j) (\<lambda>dst.
        bind_res (ptr_add (Ptr b 0) j) (\<lambda>src. move_assign T h' dst src))) ?h1
      = Inr (?h1\<lparr>cells := (cells ?h1)
           (?f \<mapsto> take 0 ?ys @ take (size_v v - 0) (drop 0 xs) @ drop (size_v v) ?ys,
            b \<mapsto> take 0 xs @ map (moved_from T) (take (size_v v - 0) (drop 0 xs)) @
              drop (size_v v) xs)\<rparr>)"
    using bf assms c by (intro move_loop) simp_all
  then have lp: "for_loop 0 (size_v v) (\<lambda>j h'. bind_res (ptr_add (Ptr ?f 0) j) (\<lambda>dst.
        bind_res (ptr_add (Ptr b 0) j) (\<lambda>src. move_assign T h' dst src))) ?h1
      = Inr (?h1\<lparr>cells := (cells ?h1)(?f \<mapsto> ?A, b \<mapsto> ?B)\<rparr>)"
    by simp
  have e: "((cells h)(?f \<mapsto> ?A, b \<mapsto> ?B))(b := None) = ((cells h)(?f \<mapsto> ?A))(b := None)"
    by (auto simp: fun_eq_iff)
  show ?thesis
    using assms c bf lp e
    by (simp add: Resize_def SimpleVector_size_exact swap_vec_eq ArrayPtr_index_def
        SimpleVector_destroy_def ArrayPtr_destroy_def delete_array_def Let_def)
qed

text \<open>What both cases share.\<close>

lemma Resize_grow:
  assumes "valid h v" "capacity_v v < n"
  shows "\<exists>h'. Resize T n (v, h) =
       Inr (\<lparr>size_v = n, capacity_v = max (capacity_v v * 2) n,
              items_v = \<lparr>raw_ptr = Ptr (fresh h) 0\<rparr>\<rparr>, h') \<and>
     fresh h' = Suc (fresh h) \<and>
     cells h' (fresh h) = Some (contents h v @
        replicate (max (capacity_v v * 2) n - size_v v) (value_init T)) \<and>
     (\<forall>c. c < fresh h \<and> block_of (raw_ptr (items_v v)) \<noteq> Some c \<longrightarrow> cells h' c = cells h c)"
  using assms(1)
proof (cases rule: valid_cases)
  case null
  with assms(2) show ?thesis
    by (simp add: Resize_grow_null contents_def buffer_def block_of_def)
next
  case (array b xs)
  with assms(2) show ?thesis
    by (simp add: Resize_grow_array contents_def buffer_def block_of_def)
qed

lemma PushBack_grow:
  assumes "valid h v" "size_v v = capacity_v v" "live h item"
    "block_of item \<noteq> block_of (raw_ptr (items_v v))"
  shows "\<exists>x h'. load h item = Inr x \<and>
     PushBack T item (v, h) =
       Inr (\<lparr>size_v = size_v v + 1, capacity_v = max (capacity_v v * 2) (capacity_v v + 1),
              items_v = \<lparr>raw_ptr = Ptr (fresh h) 0\<rparr>\<rparr>, h') \<and>
     fresh h' = Suc (fresh h) \<and>
     cells h' (fresh h) = Some (contents h v @ [x] @
        replicate (max (capacity_v v * 2) (capacity_v v + 1) - (size_v v + 1)) (value_init T))"
proof -
  let ?c = "max (capacity_v v * 2) (capacity_v v + 1)"
  let ?v1 = "\<lparr>size_v = size_v v + 1, capacity_v = ?c, items_v = \<lparr>raw_ptr = Ptr (fresh h) 0\<rparr>\<rparr>"
  from assms(3) obtain bi ii zs where item: "item = Ptr bi ii" "bi < fresh h"
    "cells h bi = Some zs" "ii < length zs"
    by (auto simp: live_def split: ptr.splits option.splits)
  from Resize_grow [OF assms(1), of "size_v v + 1" T] assms(2) obtain h1 where
    r: "Resize T (size_v v + 1) (v, h) = Inr (?v1, h1)" and
    f: "fresh h1 = Suc (fresh h)" and
    n: "cells h1 (fresh h) = Some (contents h v @ replicate (?c - size_v v) (value_init T))" and
    o: "\<forall>c. c < fresh h \<and> block_of (raw_ptr (items_v v)) \<noteq> Some c \<longrightarrow> cells h1 c = cells h c"
    by auto
  have len: "length (contents h v) = size_v v"
    using assms(1) by (auto simp: valid_def contents_def split: option.splits)
  have "cells h1 bi = cells h bi" using o item assms(4) by (simp add: block_of_def)
  then have ld: "load h1 item = Inr (zs ! ii)" "load h item = Inr (zs ! ii)"
    using item by (simp_all add: load_def)
  have ne: "bi \<noteq> fresh h" using item by simp
  have upd: "(contents h v @ replicate (?c - size_v v) (value_init T))[size_v v := zs ! ii]
     = contents h v @ [zs ! ii] @ replicate (?c - (size_v v + 1)) (value_init T)"
    using len assms(2) by (cases "?c - size_v v") (auto simp: list_update_append)
  have lt: "size_v v < length (contents h v @ replicate (?c - size_v v) (value_init T))"
    using len assms(2) by simp
  show ?thesis
    using r f n ld assms(2) lt upd
    by (simp add: PushBack_def ArrayPtr_index_def ptr_add_def copy_assign_def store_def)
qed


lemma PushBack_move_grow:
  assumes "valid h v" "size_v v = capacity_v v" "live h item"
    "block_of item \<noteq> block_of (raw_ptr (items_v v))"
  shows "\<exists>h'. PushBack_move T item (v, h) =
       Inr (\<lparr>size_v = size_v v + 1, capacity_v = max (capacity_v v * 2) (capacity_v v + 1),
              items_v = \<lparr>raw_ptr = Ptr (fresh h) 0\<rparr>\<rparr>, h')"
proof -
  let ?c = "max (capacity_v v * 2) (capacity_v v + 1)"
  let ?v1 = "\<lparr>size_v = size_v v + 1, capacity_v = ?c, items_v = \<lparr>raw_ptr = Ptr (fresh h) 0\<rparr>\<rparr>"
  from assms(3) obtain bi ii zs where item: "item = Ptr bi ii" "bi < fresh h"
    "cells h bi = Some zs" "ii < length zs"
    by (auto simp: live_def split: ptr.splits option.splits)
  from Resize_grow [OF assms(1), of "size_v v + 1" T] assms(2) obtain h1 where
    r: "Resize T (size_v v + 1) (v, h) = Inr (?v1, h1)" and
    n: "cells h1 (fresh h) = Some (contents h v @ replicate (?c - size_v v) (value_init T))" and
    o: "\<forall>c. c < fresh h \<and> block_of (raw_ptr (items_v v)) \<noteq> Some c \<longrightarrow> cells h1 c = cells h c"
    by auto
  have len: "length (contents h v) = size_v v"
    using assms(1) by (auto simp: valid_def contents_def split: option.splits)
  have "cells h1 bi = cells h bi" using o item assms(4) by (simp add: block_of_def)
  then have ld: "cells h1 bi = Some zs" using item by simp
  have ne: "bi \<noteq> fresh h" using item by simp
  have lt: "size_v v < length (contents h v @ replicate (?c - size_v v) (value_init T))"
    using len assms(2) by simp
  show ?thesis
    using r n ld assms(2) lt item ne
    by (simp add: PushBack_move_def ArrayPtr_index_def ptr_add_def move_assign_def load_def
        store_def)
qed

lemma Insert_end_grow:
  assumes "valid h v" "size_v v = capacity_v v" "live h item"
    "block_of item \<noteq> block_of (raw_ptr (items_v v))"
  shows "\<exists>pos h'. cend v = Inr pos \<and> Insert T pos item (v, h) =
       Inr (Ptr (fresh h) (size_v v),
            \<lparr>size_v = size_v v + 1, capacity_v = max (capacity_v v * 2) (capacity_v v + 1),
              items_v = \<lparr>raw_ptr = Ptr (fresh h) 0\<rparr>\<rparr>, h')"
proof -
  from PushBack_grow [OF assms, of T] obtain h' where
    p: "PushBack T item (v, h) =
       Inr (\<lparr>size_v = size_v v + 1, capacity_v = max (capacity_v v * 2) (capacity_v v + 1),
              items_v = \<lparr>raw_ptr = Ptr (fresh h) 0\<rparr>\<rparr>, h')"
    by blast
  from assms(1) show ?thesis
  proof (cases rule: valid_cases)
    case null
    with p show ?thesis
      by (simp add: Insert_def cend_def cbegin_def end_it_def Get_def pointer_defs)
  next
    case (array b xs)
    with p show ?thesis
      by (simp add: Insert_def cend_def cbegin_def end_it_def Get_def pointer_defs)
  qed
qed

text \<open>
  C5. Whenever more than the capacity is needed, the new capacity is exactly the larger
  of twice the old capacity and what is needed: \<open>Resize\<close> to any \<open>n\<close> above the
  capacity of a valid vector returns with capacity \<open>max (capacity * 2) n\<close>, and on a full
  vector \<open>PushBack\<close> (by copy or by move) and \<open>Insert\<close> at the end, of an item that is a live
  object outside the vector's own array, return with capacity
  \<open>max (capacity * 2) (capacity + 1)\<close>, which is 1 for capacity 0. Five calls of \<open>PushBack\<close>
  on a default-constructed vector leave the capacities 1, 2, 4, 4, 8.
\<close>

theorem growth_policy:
  "(valid h v \<longrightarrow> capacity_v v < n \<longrightarrow>
      (\<exists>v' h'. Resize T n (v, h) = Inr (v', h') \<and>
         GetCapacity v' = max (GetCapacity v * 2) n)) \<and>
   (valid h v \<longrightarrow> size_v v = capacity_v v \<longrightarrow> live h item \<longrightarrow>
    block_of item \<noteq> block_of (raw_ptr (items_v v)) \<longrightarrow>
      (\<exists>v' h'. PushBack T item (v, h) = Inr (v', h') \<and>
         GetCapacity v' = max (GetCapacity v * 2) (GetCapacity v + 1)) \<and>
      (\<exists>v' h'. PushBack_move T item (v, h) = Inr (v', h') \<and>
         GetCapacity v' = max (GetCapacity v * 2) (GetCapacity v + 1)) \<and>
      (\<exists>it v' h'. bind_res (cend v) (\<lambda>pos. Insert T pos item (v, h)) = Inr (it, v', h') \<and>
         GetCapacity v' = max (GetCapacity v * 2) (GetCapacity v + 1))) \<and>
   (\<exists>v h. push_backs int_type [Ptr 0 0, Ptr 0 1, Ptr 0 2, Ptr 0 3, Ptr 0 4]
        (SimpleVector_default, heap_of [10, 20, 30, 40, 50]) = Inr ([1, 2, 4, 4, 8], v, h) \<and>
      contents h v = [10, 20, 30, 40, 50])"
proof (intro conjI impI)
  assume "valid h v" "capacity_v v < n"
  from Resize_grow [OF this, of T]
  show "\<exists>v' h'. Resize T n (v, h) = Inr (v', h') \<and> GetCapacity v' = max (GetCapacity v * 2) n"
    by (auto simp: GetCapacity_def)
next
  assume a: "valid h v" "size_v v = capacity_v v" "live h item"
    "block_of item \<noteq> block_of (raw_ptr (items_v v))"
  from PushBack_grow [OF a, of T]
  show "\<exists>v' h'. PushBack T item (v, h) = Inr (v', h') \<and>
         GetCapacity v' = max (GetCapacity v * 2) (GetCapacity v + 1)"
    by (auto simp: GetCapacity_def)
  from PushBack_move_grow [OF a, of T]
  show "\<exists>v' h'. PushBack_move T item (v, h) = Inr (v', h') \<and>
         GetCapacity v' = max (GetCapacity v * 2) (GetCapacity v + 1)"
    by (auto simp: GetCapacity_def)
  from Insert_end_grow [OF a, of T]
  show "\<exists>it v' h'. bind_res (cend v) (\<lambda>pos. Insert T pos item (v, h)) = Inr (it, v', h') \<and>
         GetCapacity v' = max (GetCapacity v * 2) (GetCapacity v + 1)"
    by (auto simp: GetCapacity_def)
next
  show "\<exists>v h. push_backs int_type [Ptr 0 0, Ptr 0 1, Ptr 0 2, Ptr 0 3, Ptr 0 4]
        (SimpleVector_default, heap_of [10, 20, 30, 40, 50]) = Inr ([1, 2, 4, 4, 8], v, h) \<and>
      contents h v = [10, 20, 30, 40, 50]"
    by (simp add: run_defs)
qed

text \<open>The full vector \<open>{1, 2}\<close> grows to capacity 4.\<close>

theorem growth_policy_witness:
  "\<exists>v h. SimpleVector_init int_type [1, 2] (heap_of [10]) = Inr (v, h) \<and>
     valid h v \<and> capacity_v v < 3 \<and> size_v v = capacity_v v \<and> live h (Ptr 0 0) \<and>
     block_of (Ptr 0 0) \<noteq> block_of (raw_ptr (items_v v)) \<and>
     (\<exists>v' h'. Resize int_type 3 (v, h) = Inr (v', h') \<and> GetCapacity v' = 4) \<and>
     (\<exists>v' h'. PushBack int_type (Ptr 0 0) (v, h) = Inr (v', h') \<and> GetCapacity v' = 4) \<and>
     (\<exists>v' h'. PushBack_move int_type (Ptr 0 0) (v, h) = Inr (v', h') \<and> GetCapacity v' = 4) \<and>
     (\<exists>it v' h'. bind_res (cend v) (\<lambda>pos. Insert int_type pos (Ptr 0 0) (v, h)) = Inr (it, v', h') \<and>
        GetCapacity v' = 4)"
proof -
  let ?v = "\<lparr>size_v = 2, capacity_v = 2, items_v = \<lparr>raw_ptr = Ptr 1 0\<rparr>\<rparr>"
  let ?h = "\<lparr>cells = ((\<lambda>b. None)(0 \<mapsto> [10]))(1 \<mapsto> [1, 2 :: int]), fresh = 2\<rparr>"
  have r: "SimpleVector_init int_type [1, 2] (heap_of [10]) = Inr (?v, ?h)"
    by (simp add: run_defs)
  have ok: "valid ?h ?v" by (simp add: valid_def buffer_def)
  have c: "capacity_v ?v < 3" "size_v ?v = capacity_v ?v" by simp_all
  have li: "live ?h (Ptr 0 0)" by (simp add: live_def)
  have bl: "block_of (Ptr 0 0) \<noteq> block_of (raw_ptr (items_v ?v))" by (simp add: block_of_def)
  have m: "max (GetCapacity ?v * 2) 3 = 4" "max (GetCapacity ?v * 2) (GetCapacity ?v + 1) = 4"
    by (simp_all add: GetCapacity_def)
  from growth_policy [of ?h ?v 3 int_type "Ptr 0 0"] ok c li bl
  have "(\<exists>v' h'. Resize int_type 3 (?v, ?h) = Inr (v', h') \<and> GetCapacity v' = 4) \<and>
     (\<exists>v' h'. PushBack int_type (Ptr 0 0) (?v, ?h) = Inr (v', h') \<and> GetCapacity v' = 4) \<and>
     (\<exists>v' h'. PushBack_move int_type (Ptr 0 0) (?v, ?h) = Inr (v', h') \<and> GetCapacity v' = 4) \<and>
     (\<exists>it v' h'. bind_res (cend ?v) (\<lambda>pos. Insert int_type pos (Ptr 0 0) (?v, ?h)) = Inr (it, v', h') \<and>
        GetCapacity v' = 4)"
    unfolding m by blast
  with r ok c li bl show ?thesis by blast
qed

section \<open>What an operation leaves untouched\<close>


lemma block_of_ptr_add: "ptr_add p n = Inr q \<Longrightarrow> block_of q = block_of p"
  by (auto simp: ptr_add_def block_of_def split: ptr.splits if_splits)

lemma block_of_ptr_sub: "ptr_sub p n = Inr q \<Longrightarrow> block_of q = block_of p"
  by (auto simp: ptr_sub_def block_of_def split: ptr.splits if_splits)

lemma same_at_refl [simp]: "same_at c h h"
  by (simp add: same_at_def)































section \<open>Insert within the capacity\<close>

lemma for_loop_total:
  assumes "I i s" "i \<le> n"
    and step: "\<And>k t. i \<le> k \<Longrightarrow> k < n \<Longrightarrow> I k t \<Longrightarrow> \<exists>t'. body k t = Inr t' \<and> I (Suc k) t'"
  shows "\<exists>s'. for_loop i n body s = Inr s' \<and> I n s'"
  using assms(1,2) step
proof (induction "n - i" arbitrary: i s)
  case 0
  then show ?case by (simp add: for_loop_done)
next
  case (Suc d)
  then have lt: "i < n" and d: "d = n - Suc i" by auto
  from Suc.prems(3) [OF le_refl lt Suc.prems(1)] obtain t where
    t: "body i s = Inr t" "I (Suc i) t" by blast
  have "\<exists>s'. for_loop (Suc i) n body t = Inr s' \<and> I n s'"
  proof (rule Suc.hyps(1) [OF d t(2)])
    show "Suc i \<le> n" using lt by simp
  next
    fix k u assume "Suc i \<le> k" "k < n" "I k u"
    then show "\<exists>t'. body k u = Inr t' \<and> I (Suc k) t'"
      using Suc.prems(3) [of k u] by simp
  qed
  with t(1) lt show ?case by (simp add: for_loop_step)
qed

lemma move_backward_loop:
  assumes "cells h b = Some xs" "s < length xs" "n \<le> s"
  shows "\<exists>ys. for_loop 0 n (\<lambda>k h'.
         bind_res (ptr_sub (Ptr b s) (Suc k)) (\<lambda>src.
         bind_res (ptr_sub (Ptr b (Suc s)) (Suc k)) (\<lambda>dst. move_assign T h' dst src))) h
       = Inr (h\<lparr>cells := (cells h)(b \<mapsto> ys)\<rparr>) \<and>
     length ys = length xs \<and> (\<forall>j < length xs. ys ! j = shifted (moved_from T) xs s n j)"
proof -
  let ?I = "\<lambda>k t. \<exists>ys. t = h\<lparr>cells := (cells h)(b \<mapsto> ys)\<rparr> \<and> length ys = length xs \<and>
     (\<forall>j < length xs. ys ! j = shifted (moved_from T) xs s k j)"
  have "\<exists>s'. for_loop 0 n (\<lambda>k h'.
         bind_res (ptr_sub (Ptr b s) (Suc k)) (\<lambda>src.
         bind_res (ptr_sub (Ptr b (Suc s)) (Suc k)) (\<lambda>dst. move_assign T h' dst src))) h = Inr s' \<and>
       ?I n s'"
  proof (rule for_loop_total [where I = ?I])
    have "h = h\<lparr>cells := (cells h)(b \<mapsto> xs)\<rparr>"
      using assms(1) by (simp add: heap_cells_same)
    then show "?I 0 h" by (auto simp: shifted_def)
  next
    show "0 \<le> n" by simp
  next
    fix k t
    assume k: "0 \<le> k" "k < n" and "?I k t"
    then obtain ys where ys: "t = h\<lparr>cells := (cells h)(b \<mapsto> ys)\<rparr>" "length ys = length xs"
      "\<forall>j < length xs. ys ! j = shifted (moved_from T) xs s k j"
      by blast
    let ?x = "ys ! (s - Suc k)"
    let ?ys' = "ys[s - k := ?x, s - Suc k := moved_from T ?x]"
    have b1: "s - Suc k < length xs" "s - k < length xs" "Suc k \<le> s" "s - Suc k < s - k"
      using k assms by auto
    have x: "?x = xs ! (s - Suc k)"
      using ys(3) b1 by (simp add: shifted_def)
    have mv: "move_assign T t (Ptr b (s - k)) (Ptr b (s - Suc k))
        = Inr (h\<lparr>cells := (cells h)(b \<mapsto> ?ys')\<rparr>)"
      using ys(1,2) b1 by (simp add: move_assign_def load_def store_def)
    have "\<forall>j < length xs. ?ys' ! j = shifted (moved_from T) xs s (Suc k) j"
    proof (intro allI impI)
      fix j assume j: "j < length xs"
      consider "j = s - Suc k" | "j = s - k" | "j \<noteq> s - Suc k" "j \<noteq> s - k" by blast
      then show "?ys' ! j = shifted (moved_from T) xs s (Suc k) j"
      proof cases
        case 1
        with b1 ys(2) x show ?thesis by (simp add: shifted_def)
      next
        case 2
        with b1 ys(2) x show ?thesis by (simp add: shifted_def)
      next
        case 3
        with b1 ys(2,3) j show ?thesis by (auto simp: shifted_def)
      qed
    qed
    then have "?I (Suc k) (h\<lparr>cells := (cells h)(b \<mapsto> ?ys')\<rparr>)"
      using ys(2) by (intro exI [of _ ?ys']) simp
    moreover have "bind_res (ptr_sub (Ptr b s) (Suc k)) (\<lambda>src.
         bind_res (ptr_sub (Ptr b (Suc s)) (Suc k)) (\<lambda>dst. move_assign T t dst src))
       = Inr (h\<lparr>cells := (cells h)(b \<mapsto> ?ys')\<rparr>)"
      using mv b1 by (simp add: ptr_sub_def)
    ultimately show "\<exists>t'. bind_res (ptr_sub (Ptr b s) (Suc k)) (\<lambda>src.
         bind_res (ptr_sub (Ptr b (Suc s)) (Suc k)) (\<lambda>dst. move_assign T t dst src)) = Inr t' \<and>
       ?I (Suc k) t'"
      by blast
  qed
  then show ?thesis by blast
qed


text \<open>
  With room left in the array, \<open>Insert\<close> before the end does what is asked of it: it
  returns the iterator to index \<open>i\<close>, the size is one more, and the elements are those
  before \<open>i\<close>, the new value, and those from \<open>i\<close> on.
\<close>

lemma Insert_within_capacity:
  assumes "raw_ptr (items_v v) = Ptr b 0" "b < fresh h" "cells h b = Some xs"
    "size_v v < capacity_v v" "size_v v < length xs" "i < size_v v"
    "load h val = Inr x" "block_of val \<noteq> Some b"
  shows "\<exists>h'. Insert T (Ptr b i) val (v, h) = Inr (Ptr b i, v\<lparr>size_v := size_v v + 1\<rparr>, h') \<and>
     contents h' (v\<lparr>size_v := size_v v + 1\<rparr>)
       = take i (contents h v) @ [x] @ drop i (contents h v)"
proof -
  let ?s = "size_v v"
  let ?v1 = "v\<lparr>size_v := ?s + 1\<rparr>"
  from move_backward_loop [OF assms(3,5), of "?s - i" T] obtain ys where
    lp: "for_loop 0 (?s - i) (\<lambda>k h'.
         bind_res (ptr_sub (Ptr b ?s) (Suc k)) (\<lambda>src.
         bind_res (ptr_sub (Ptr b (Suc ?s)) (Suc k)) (\<lambda>dst. move_assign T h' dst src))) h
       = Inr (h\<lparr>cells := (cells h)(b \<mapsto> ys)\<rparr>)" and
    len: "length ys = length xs" and
    ys: "\<forall>j < length xs. ys ! j = shifted (moved_from T) xs ?s (?s - i) j"
    by auto
  let ?h2 = "h\<lparr>cells := (cells h)(b \<mapsto> ys)\<rparr>"
  let ?h3 = "h\<lparr>cells := (cells h)(b \<mapsto> ys[i := x])\<rparr>"
  have mb: "std_move_backward T (Ptr b i) (Ptr b ?s) (Ptr b (Suc ?s)) h = Inr (Ptr b (Suc i), ?h2)"
  proof -
    have 1: "range_length (Ptr b i) (Ptr b ?s) = Inr (?s - i)"
      using assms(6) by (simp add: range_length_def ptr_diff_def)
    have 2: "ptr_sub (Ptr b (Suc ?s)) (?s - i) = Inr (Ptr b (Suc i))"
      using assms(6) by (simp add: ptr_sub_def)
    show ?thesis unfolding std_move_backward_def by (simp add: 1 2 lp)
  qed
  from assms(7,8) have "load ?h2 val = Inr x"
    by (auto simp: load_def block_of_def split: ptr.splits)
  then have ca: "copy_assign ?h2 (Ptr b i) val = Inr ?h3"
    using assms(5,6) len by (simp add: copy_assign_def store_def)
  have ins: "Insert T (Ptr b i) val (v, h) = Inr (Ptr b i, ?v1, ?h3)"
    using assms(1,4,6) mb ca
    by (simp add: Insert_def cend_def cbegin_def end_it_def Get_def ArrayPtr_index_def
        pointer_defs)
  have "take (Suc ?s) (ys[i := x]) = take i (take ?s xs) @ [x] @ drop i (take ?s xs)"
  proof (rule nth_equalityI)
    show "length (take (Suc ?s) (ys[i := x])) = length (take i (take ?s xs) @ [x] @ drop i (take ?s xs))"
      using assms(5,6) len by simp
  next
    fix j assume "j < length (take (Suc ?s) (ys[i := x]))"
    then have j: "j < Suc ?s" "j < length xs" using assms(5) len by simp_all
    consider "j < i" | "j = i" | "i < j" by linarith
    then show "take (Suc ?s) (ys[i := x]) ! j = (take i (take ?s xs) @ [x] @ drop i (take ?s xs)) ! j"
    proof cases
      case 1
      with j assms(5,6) len ys show ?thesis by (simp add: shifted_def nth_append)
    next
      case 2
      with j assms(5,6) len show ?thesis by (simp add: nth_append)
    next
      case 3
      then obtain d where d: "j = Suc (i + d)" using less_imp_Suc_add by blast
      with j assms(5,6) len ys show ?thesis
        by (simp add: shifted_def nth_append)
    qed
  qed
  then have "contents ?h3 ?v1 = take i (contents h v) @ [x] @ drop i (contents h v)"
    using assms(1,2,3) by (simp add: contents_def buffer_def)
  with ins show ?thesis by blast
qed

section \<open>Insert into a full vector\<close>

text \<open>
  C2, on a full vector. When the size equals the capacity and \<open>pos\<close> is before the end,
  \<open>Insert\<close> (either overload) grows the vector first and computes the index afterwards, as
  the distance from the new array to \<open>pos\<close>, which still points into the old one: the
  call does not get as far as moving an element.
\<close>

theorem Insert_full_before_end_fails:
  "valid h v \<Longrightarrow> size_v v = capacity_v v \<Longrightarrow> cbegin v = Ptr b 0 \<Longrightarrow> i < size_v v \<Longrightarrow>
     Insert T (Ptr b i) val (v, h) = Inl UndefinedBehaviour \<and>
     Insert_move T (Ptr b i) val (v, h) = Inl UndefinedBehaviour"
proof -
  assume a: "valid h v" "size_v v = capacity_v v" "cbegin v = Ptr b 0" "i < size_v v"
  from a(1,3) have bf: "b < fresh h"
    by (auto simp: cbegin_def Get_def elim!: valid_cases)
  from Resize_grow [OF a(1), of "size_v v + 1" T] a(2) obtain h1 where
    r: "Resize T (size_v v + 1) (v, h) =
       Inr (\<lparr>size_v = size_v v + 1, capacity_v = max (capacity_v v * 2) (capacity_v v + 1),
              items_v = \<lparr>raw_ptr = Ptr (fresh h) 0\<rparr>\<rparr>, h1)"
    by auto
  from a bf r show ?thesis
    by (simp add: Insert_def Insert_move_def cend_def cbegin_def Get_def pointer_defs)
qed

text \<open>Inserting 3 at \<open>begin + 2\<close> of \<open>{1, 2, 4, 5}\<close>, whose capacity is 4.\<close>

theorem Insert_full_before_end_fails_witness:
  "\<exists>v h. SimpleVector_init int_type [1, 2, 4, 5] (heap_of [3]) = Inr (v, h) \<and> valid h v \<and>
     contents h v = [1, 2, 4, 5] \<and> size_v v = capacity_v v \<and> cbegin v = Ptr 1 0 \<and>
     2 < size_v v \<and>
     Insert int_type (Ptr 1 2) (Ptr 0 0) (v, h) = Inl UndefinedBehaviour \<and>
     Insert_move int_type (Ptr 1 2) (Ptr 0 0) (v, h) = Inl UndefinedBehaviour"
proof -
  let ?v = "\<lparr>size_v = 4, capacity_v = 4, items_v = \<lparr>raw_ptr = Ptr 1 0\<rparr>\<rparr>"
  let ?h = "\<lparr>cells = ((\<lambda>b. None)(0 \<mapsto> [3]))(1 \<mapsto> [1, 2, 4, 5 :: int]), fresh = 2\<rparr>"
  have r: "SimpleVector_init int_type [1, 2, 4, 5] (heap_of [3]) = Inr (?v, ?h)"
    by (simp add: run_defs)
  have ok: "valid ?h ?v" by (simp add: valid_def buffer_def)
  have c: "contents ?h ?v = [1, 2, 4, 5]" by (simp add: contents_def buffer_def)
  have f: "size_v ?v = capacity_v ?v" by simp
  have b: "cbegin ?v = Ptr 1 0" by (simp add: cbegin_def Get_def)
  have i: "2 < size_v ?v" by simp
  from Insert_full_before_end_fails [OF ok f b i, of int_type "Ptr 0 0"] r ok c f b i
  show ?thesis by blast
qed

section \<open>Size and capacity in every reachable state\<close>

lemma store_not_null: "store h p x = Inr h' \<Longrightarrow> block_of p \<noteq> None"
  by (auto simp: store_def block_of_def split: ptr.splits)

lemma copy_assign_not_null: "copy_assign h dst src = Inr h' \<Longrightarrow> block_of dst \<noteq> None"
  by (auto simp: copy_assign_def bind_res_eq_Inr dest: store_not_null)

lemma move_assign_not_null: "move_assign T h dst src = Inr h' \<Longrightarrow> block_of dst \<noteq> None"
  by (auto simp: move_assign_def bind_res_eq_Inr store_def block_of_def split: ptr.splits)

lemma block_of_Null: "(block_of p = None) = (p = Null)"
  by (simp add: block_of_def split: ptr.splits)

lemma ArrayPtr_size_raw: "(raw_ptr (fst (ArrayPtr_size T n h)) = Null) = (n = 0)"
  by (simp add: ArrayPtr_size_def new_array_def)

lemma Resize_sizes_ok:
  assumes "Resize T n (v, h) = Inr (v', h')" "sizes_ok v"
  shows "sizes_ok v' \<and> size_v v' = n"
proof -
  consider (same) "n = size_v v" | (less) "n < size_v v"
    | (within) "size_v v < n" "n \<le> capacity_v v" | (grow) "size_v v < n" "capacity_v v < n"
    by linarith
  then show ?thesis
  proof cases
    case same
    with assms show ?thesis by (simp add: Resize_def)
  next
    case less
    with assms show ?thesis by (auto simp: Resize_def sizes_ok_def)
  next
    case within
    with assms(1) obtain h1 where
      l: "for_loop (size_v v) n (\<lambda>i h'.
           bind_res (ArrayPtr_index (items_v v) i) (\<lambda>dst. store h' dst (value_init T))) h = Inr h1"
      and r: "v' = v\<lparr>size_v := n\<rparr>"
      by (auto simp: Resize_def bind_res_eq_Inr)
    from l within(1) obtain dst t where "ArrayPtr_index (items_v v) (size_v v) = Inr dst"
      "store h dst (value_init T) = Inr t"
      by (auto simp: for_loop_step bind_res_eq_Inr)
    then have "raw_ptr (items_v v) \<noteq> Null"
      using block_of_ptr_add [of "raw_ptr (items_v v)" "size_v v" dst] store_not_null [of h dst _ t]
      by (auto simp: ArrayPtr_index_def block_of_Null)
    with r within show ?thesis by (simp add: sizes_ok_def)
  next
    case grow
    with assms(1) show ?thesis
      by (auto simp: Resize_def bind_res_eq_Inr swap_vec_eq Let_def SimpleVector_size_exact
          sizes_ok_def split: if_splits)
  qed
qed

lemma grow_step_sizes:
  assumes "(if size_v v < capacity_v v then Inr (v\<lparr>size_v := size_v v + 1\<rparr>, h)
            else Resize T (size_v v + 1) (v, h)) = Inr (v1, h1)" "sizes_ok v"
  shows "size_v v1 \<le> capacity_v v1 \<and> size_v v1 = size_v v + 1 \<and>
     (size_v v < capacity_v v \<longrightarrow> items_v v1 = items_v v)"
proof (cases "size_v v < capacity_v v")
  case True
  with assms show ?thesis by auto
next
  case False
  with assms(1) have r: "Resize T (size_v v + 1) (v, h) = Inr (v1, h1)" by simp
  from Resize_sizes_ok [OF r assms(2)] False show ?thesis by (simp add: sizes_ok_def)
qed

lemma PushBack_sizes_ok:
  assumes "PushBack T item (v, h) = Inr (v', h')" "sizes_ok v"
  shows "sizes_ok v'"
proof -
  from assms(1) obtain h1 dst where
    g: "(if size_v v < capacity_v v then Inr (v\<lparr>size_v := size_v v + 1\<rparr>, h)
            else Resize T (size_v v + 1) (v, h)) = Inr (v', h1)" and
    i: "ArrayPtr_index (items_v v') (size_v v' - 1) = Inr dst" and
    a: "copy_assign h1 dst item = Inr h'"
    unfolding PushBack_def by (auto simp: bind_res_eq_Inr)
  from i a have "raw_ptr (items_v v') \<noteq> Null"
    using block_of_ptr_add [of "raw_ptr (items_v v')" _ dst] copy_assign_not_null [of h1 dst item h']
    by (auto simp: ArrayPtr_index_def block_of_Null)
  with grow_step_sizes [OF g assms(2)] show ?thesis by (simp add: sizes_ok_def)
qed

lemma PushBack_move_sizes_ok:
  assumes "PushBack_move T item (v, h) = Inr (v', h')" "sizes_ok v"
  shows "sizes_ok v'"
proof -
  from assms(1) obtain h1 dst where
    g: "(if size_v v < capacity_v v then Inr (v\<lparr>size_v := size_v v + 1\<rparr>, h)
            else Resize T (size_v v + 1) (v, h)) = Inr (v', h1)" and
    i: "ArrayPtr_index (items_v v') (size_v v' - 1) = Inr dst" and
    a: "move_assign T h1 dst item = Inr h'"
    unfolding PushBack_move_def by (auto simp: bind_res_eq_Inr)
  from i a have "raw_ptr (items_v v') \<noteq> Null"
    using block_of_ptr_add [of "raw_ptr (items_v v')" _ dst] move_assign_not_null [of T h1 dst item h']
    by (auto simp: ArrayPtr_index_def block_of_Null)
  with grow_step_sizes [OF g assms(2)] show ?thesis by (simp add: sizes_ok_def)
qed

lemma std_move_backward_block:
  "std_move_backward T first last1 d_last h = Inr (it, h') \<Longrightarrow> block_of it = block_of d_last"
  by (auto simp: std_move_backward_def bind_res_eq_Inr dest: block_of_ptr_sub)

lemma middle_sizes_ok:
  assumes g: "(if size_v v < capacity_v v then Inr (v\<lparr>size_v := size_v v + 1\<rparr>, h)
            else Resize T (size_v v + 1) (v, h)) = Inr (v1, h1)"
    and e1: "end_it v1 = Inr e1"
    and m: "std_move_backward T first last1 e1 h1 = Inr (it0, h2)"
    and i1: "ptr_sub it0 1 = Inr it1" and nn: "block_of it1 \<noteq> None"
    and ok: "sizes_ok v"
  shows "sizes_ok v1"
proof -
  have "block_of it1 = block_of (raw_ptr (items_v v1))"
    using block_of_ptr_sub [OF i1] std_move_backward_block [OF m] block_of_ptr_add [of _ _ e1] e1
    by (simp add: end_it_def Get_def)
  with nn have "raw_ptr (items_v v1) \<noteq> Null" by (auto simp: block_of_Null)
  with grow_step_sizes [OF g ok] show ?thesis by (simp add: sizes_ok_def)
qed

lemma Insert_sizes_ok:
  assumes "Insert T pos val (v, h) = Inr (it, v', h')" "sizes_ok v"
  shows "sizes_ok v'"
proof -
  from assms(1) obtain e where e: "cend v = Inr e"
    unfolding Insert_def by (auto simp: bind_res_eq_Inr)
  show ?thesis
  proof (cases "pos = e")
    case True
    with assms(1) e obtain h1 where "PushBack T val (v, h) = Inr (v', h1)"
      unfolding Insert_def by (auto simp: bind_res_eq_Inr split: if_splits)
    with assms(2) show ?thesis by (blast intro: PushBack_sizes_ok)
  next
    case False
    with assms(1) e obtain h1 first e1 last1 it0 h2 it1 where
      g: "(if size_v v < capacity_v v then Inr (v\<lparr>size_v := size_v v + 1\<rparr>, h)
            else Resize T (size_v v + 1) (v, h)) = Inr (v', h1)" and
      e1: "end_it v' = Inr e1" and
      m: "std_move_backward T first last1 e1 h1 = Inr (it0, h2)" and
      i1: "ptr_sub it0 1 = Inr it1" and a: "copy_assign h2 it1 val = Inr h'"
      unfolding Insert_def by (auto simp: bind_res_eq_Inr Let_def split: if_splits)
    from middle_sizes_ok [OF g e1 m i1 copy_assign_not_null [OF a] assms(2)] show ?thesis .
  qed
qed

lemma Insert_move_sizes_ok:
  assumes "Insert_move T pos val (v, h) = Inr (it, v', h')" "sizes_ok v"
  shows "sizes_ok v'"
proof -
  from assms(1) obtain e where e: "cend v = Inr e"
    unfolding Insert_move_def by (auto simp: bind_res_eq_Inr)
  show ?thesis
  proof (cases "pos = e")
    case True
    with assms(1) e obtain h1 where "PushBack_move T val (v, h) = Inr (v', h1)"
      unfolding Insert_move_def by (auto simp: bind_res_eq_Inr split: if_splits)
    with assms(2) show ?thesis by (blast intro: PushBack_move_sizes_ok)
  next
    case False
    with assms(1) e obtain h1 first e1 last1 it0 h2 it1 where
      g: "(if size_v v < capacity_v v then Inr (v\<lparr>size_v := size_v v + 1\<rparr>, h)
            else Resize T (size_v v + 1) (v, h)) = Inr (v', h1)" and
      e1: "end_it v' = Inr e1" and
      m: "std_move_backward T first last1 e1 h1 = Inr (it0, h2)" and
      i1: "ptr_sub it0 1 = Inr it1" and a: "move_assign T h2 it1 val = Inr h'"
      unfolding Insert_move_def by (auto simp: bind_res_eq_Inr Let_def split: if_splits)
    from middle_sizes_ok [OF g e1 m i1 move_assign_not_null [OF a] assms(2)] show ?thesis .
  qed
qed

lemma Erase_sizes_ok:
  "Erase T pos (v, h) = Inr (it, v', h') \<Longrightarrow> sizes_ok v \<Longrightarrow> sizes_ok v'"
  by (auto simp: Erase_def bind_res_eq_Inr Let_def IsEmpty_def sizes_ok_def split: if_splits)

lemma PopBack_sizes_ok: "PopBack v = Inr v' \<Longrightarrow> sizes_ok v \<Longrightarrow> sizes_ok v'"
  by (auto simp: PopBack_def IsEmpty_def sizes_ok_def split: if_splits)

lemma Clear_sizes_ok: "sizes_ok v \<Longrightarrow> sizes_ok (Clear v)"
  by (simp add: Clear_def sizes_ok_def)

lemma Reserve_sizes_ok:
  "SimpleVector_Reserve T n (v, h) = Inr (v', h') \<Longrightarrow> sizes_ok v \<Longrightarrow> sizes_ok v'"
  by (auto simp: SimpleVector_Reserve_def ArrayPtr_size_def new_array_def ArrayPtr_swap_def
      bind_res_eq_Inr Let_def sizes_ok_def split: if_splits)

lemma default_sizes_ok: "sizes_ok SimpleVector_default"
  by (simp add: SimpleVector_default_def sizes_ok_def)

lemma size_ctor_sizes_ok: "SimpleVector_size T n h = Inr (v, h') \<Longrightarrow> sizes_ok v"
  by (auto simp: SimpleVector_size_exact sizes_ok_def split: if_splits)

lemma fill_ctor_sizes_ok: "SimpleVector_fill T n val h = Inr (v, h') \<Longrightarrow> sizes_ok v"
  by (auto simp: SimpleVector_fill_def ArrayPtr_size_def new_array_def bind_res_eq_Inr Let_def
      sizes_ok_def split: if_splits)

lemma init_ctor_sizes_ok: "SimpleVector_init T init h = Inr (v, h') \<Longrightarrow> sizes_ok v"
  by (auto simp: SimpleVector_init_def ArrayPtr_size_def new_array_def bind_res_eq_Inr Let_def
      sizes_ok_def split: if_splits)

lemma reserve_ctor_sizes_ok: "SimpleVector_reserve T obj h = Inr (v, h') \<Longrightarrow> sizes_ok v"
  unfolding SimpleVector_reserve_def by (erule Reserve_sizes_ok) (rule default_sizes_ok)

lemma copy_ctor_sizes_ok:
  "SimpleVector_copy T other h = Inr (v, h') \<Longrightarrow> sizes_ok other \<Longrightarrow> sizes_ok v"
  by (auto simp: SimpleVector_copy_def ArrayPtr_size_def new_array_def bind_res_eq_Inr Let_def
      GetSize_def GetCapacity_def sizes_ok_def split: if_splits)

lemma move_ctor_sizes_ok:
  "SimpleVector_move other = (v, rest) \<Longrightarrow> sizes_ok other \<Longrightarrow> sizes_ok v \<and> sizes_ok rest"
  using SimpleVector_move_rest [of other] SimpleVector_move_new [of other]
  by (auto simp: default_sizes_ok)


lemma construct_all_ok:
  assumes "construct a r w = Inr w'" "all_ok w" "\<And>v h. r = Inr (v, h) \<Longrightarrow> sizes_ok v"
  shows "all_ok w'"
  using assms
  by (auto simp: construct_def all_ok_def bind_res_eq_Inr split: option.splits if_splits)

lemma call_all_ok:
  assumes "call a f w = Inr w'" "all_ok w"
    "\<And>v v1 h1. sizes_ok v \<Longrightarrow> f (v, mem w) = Inr (v1, h1) \<Longrightarrow> sizes_ok v1"
  shows "all_ok w'"
proof -
  from assms(1) obtain v v1 h1 where v: "vecs w a = Some v" "f (v, mem w) = Inr (v1, h1)"
    "w' = w\<lparr>vecs := (vecs w)(a \<mapsto> v1), mem := h1\<rparr>"
    by (auto simp: call_def bind_res_eq_Inr split: option.splits)
  from v(1) assms(2) have "sizes_ok v" by (auto simp: all_ok_def)
  from assms(3) [OF this v(2)] have "sizes_ok v1" .
  with assms(2) v(3) show ?thesis by (auto simp: all_ok_def)
qed

lemma assign_move_all_ok:
  assumes "operator_assign_move T a b w = Inr w'" "all_ok w"
  shows "all_ok w'"
proof -
  from assms(1) obtain l r ne where lr: "vecs w a = Some l" "vecs w b = Some r"
    "operator_ne l r (mem w) = Inr ne"
    by (auto simp: operator_assign_move_def bind_res_eq_Inr split: option.splits)
  show ?thesis
  proof (cases ne)
    case False
    with assms lr show ?thesis by (simp add: operator_assign_move_def)
  next
    case True
    have m: "SimpleVector_move r = (r, SimpleVector_default)"
      using SimpleVector_move_rest [of r] SimpleVector_move_new [of r] by (simp add: prod_eq_iff)
    from lr(2) assms(2) have "sizes_ok r" by (auto simp: all_ok_def)
    with True assms lr show ?thesis
      by (auto simp: operator_assign_move_def m swap_vec_eq bind_res_eq_Inr all_ok_def
          default_sizes_ok split: option.splits if_splits)
  qed
qed

lemma assign_copy_all_ok:
  assumes "operator_assign_copy T a b w = Inr w'" "all_ok w"
  shows "all_ok w'"
proof -
  from assms(1) obtain l r ne where lr: "vecs w a = Some l" "vecs w b = Some r"
    "operator_ne l r (mem w) = Inr ne"
    by (auto simp: operator_assign_copy_def bind_res_eq_Inr split: option.splits)
  show ?thesis
  proof (cases ne)
    case False
    with assms lr show ?thesis by (simp add: operator_assign_copy_def)
  next
    case True
    from lr(2) assms(2) have r: "sizes_ok r" by (auto simp: all_ok_def)
    from True assms(1) lr obtain tmp h1 h2 where
      c: "SimpleVector_copy T r (mem w) = Inr (tmp, h1)" and
      w': "w' = w\<lparr>vecs := (vecs w)(a \<mapsto> tmp), mem := h2\<rparr>"
      by (auto simp: operator_assign_copy_def swap_vec_eq bind_res_eq_Inr)
    from copy_ctor_sizes_ok [OF c r] assms(2) w' show ?thesis by (auto simp: all_ok_def)
  qed
qed

lemma swap_all_ok: "swap_objects a b w = Inr w' \<Longrightarrow> all_ok w \<Longrightarrow> all_ok w'"
  by (auto simp: swap_objects_def swap_vec_eq all_ok_def split: if_splits option.splits)

lemma apply_op_all_ok:
  assumes "apply_op T x w = Inr w'" "all_ok w"
  shows "all_ok w'"
proof (cases x)
  case (New_default a)
  with assms show ?thesis by (auto elim!: construct_all_ok simp: default_sizes_ok)
next
  case (New_size a n)
  with assms show ?thesis by (auto elim!: construct_all_ok dest: size_ctor_sizes_ok)
next
  case (New_fill a n val)
  with assms show ?thesis by (auto elim!: construct_all_ok dest: fill_ctor_sizes_ok)
next
  case (New_init a init)
  with assms show ?thesis by (auto elim!: construct_all_ok dest: init_ctor_sizes_ok)
next
  case (New_reserve a obj)
  with assms show ?thesis by (auto elim!: construct_all_ok dest: reserve_ctor_sizes_ok)
next
  case (New_copy a b)
  with assms obtain other where o: "vecs w b = Some other"
    "construct a (SimpleVector_copy T other (mem w)) w = Inr w'"
    by (auto split: option.splits)
  with assms(2) have "sizes_ok other" by (auto simp: all_ok_def)
  with o(2) assms(2) show ?thesis by (auto elim!: construct_all_ok dest: copy_ctor_sizes_ok)
next
  case (New_move a b)
  with assms obtain other where o: "vecs w b = Some other"
    "construct a (Inr (other, mem w)) (w\<lparr>vecs := (vecs w)(b \<mapsto> SimpleVector_default)\<rparr>) = Inr w'"
    using SimpleVector_move_rest SimpleVector_move_new
    by (auto split: option.splits prod.splits) (metis fst_conv snd_conv)
  with assms(2) have "sizes_ok other" by (auto simp: all_ok_def)
  moreover from assms(2) have "all_ok (w\<lparr>vecs := (vecs w)(b \<mapsto> SimpleVector_default)\<rparr>)"
    by (auto simp: all_ok_def default_sizes_ok)
  ultimately show ?thesis using o(2) by (auto elim!: construct_all_ok)
next
  case (Delete a)
  with assms show ?thesis
    by (auto simp: all_ok_def bind_res_eq_Inr split: option.splits if_splits)
next
  case (Call_Clear a)
  with assms show ?thesis by (auto elim!: call_all_ok simp: Clear_sizes_ok)
next
  case (Call_Resize a n)
  with assms show ?thesis by (auto elim!: call_all_ok dest: Resize_sizes_ok)
next
  case (Call_PushBack a item)
  with assms show ?thesis by (auto elim!: call_all_ok dest: PushBack_sizes_ok)
next
  case (Call_PushBack_move a item)
  with assms show ?thesis by (auto elim!: call_all_ok dest: PushBack_move_sizes_ok)
next
  case (Call_Insert a pos val)
  with assms show ?thesis
    by (auto elim!: call_all_ok simp: bind_res_eq_Inr dest: Insert_sizes_ok)
next
  case (Call_Insert_move a pos val)
  with assms show ?thesis
    by (auto elim!: call_all_ok simp: bind_res_eq_Inr dest: Insert_move_sizes_ok)
next
  case (Call_PopBack a)
  with assms show ?thesis
    by (auto elim!: call_all_ok simp: bind_res_eq_Inr dest: PopBack_sizes_ok)
next
  case (Call_Erase a pos)
  with assms show ?thesis
    by (auto elim!: call_all_ok simp: bind_res_eq_Inr dest: Erase_sizes_ok)
next
  case (Call_Reserve a n)
  with assms show ?thesis by (auto elim!: call_all_ok dest: Reserve_sizes_ok)
next
  case (Call_swap a b)
  with assms show ?thesis by (auto dest: swap_all_ok)
next
  case (Assign_copy a b)
  with assms show ?thesis by (auto dest: assign_copy_all_ok)
next
  case (Assign_move a b)
  with assms show ?thesis by (auto dest: assign_move_all_ok)
next
  case (Write p y)
  with assms show ?thesis by (auto simp: all_ok_def bind_res_eq_Inr)
next
  case (Alloc n)
  with assms show ?thesis by (auto simp: all_ok_def)
qed

lemma run_all_ok: "run T ops w = Inr w' \<Longrightarrow> all_ok w \<Longrightarrow> all_ok w'"
proof (induction ops arbitrary: w)
  case Nil
  then show ?case by simp
next
  case (Cons x xs)
  then obtain w1 where "apply_op T x w = Inr w1" "run T xs w1 = Inr w'"
    by (auto simp: bind_res_eq_Inr)
  with Cons.IH Cons.prems(2) show ?case by (blast intro: apply_op_all_ok)
qed

lemma end_minus_begin:
  "sizes_ok v \<Longrightarrow> bind_res (end_it v) (\<lambda>e. ptr_diff e (begin_it v)) = Inr (int (size_v v))"
  by (auto simp: sizes_ok_def end_it_def begin_it_def Get_def ptr_add_def ptr_diff_def
      split: ptr.splits)

text \<open>
  C4. After any finite sequence of constructions, destructions, member calls, assignments
  and writes by the caller, started without any vector and run to its end, every vector
  in the store has \<open>0 \<le> size \<le> capacity\<close>, and \<open>end() - begin()\<close> is defined and equal to
  the size.
\<close>

theorem reachable_sizes:
  "run T ops w0 = Inr w \<Longrightarrow> vecs w0 = (\<lambda>a. None) \<Longrightarrow> vecs w a = Some v \<Longrightarrow>
     0 \<le> GetSize v \<and> GetSize v \<le> GetCapacity v \<and>
     bind_res (end_it v) (\<lambda>e. ptr_diff e (begin_it v)) = Inr (int (GetSize v))"
proof -
  assume r: "run T ops w0 = Inr w" and e: "vecs w0 = (\<lambda>a. None)" and v: "vecs w a = Some v"
  from e have "all_ok w0" by (simp add: all_ok_def)
  with r have "all_ok w" by (rule run_all_ok)
  with v have "sizes_ok v" by (auto simp: all_ok_def)
  then show ?thesis
    using end_minus_begin [of v] by (simp add: GetSize_def GetCapacity_def sizes_ok_def)
qed


text \<open>
  A run that grows a vector, pops, copies it and shrinks the copy: the copy has size 1
  and capacity 6.
\<close>

theorem reachable_sizes_witness:
  "\<exists>w v. run int_type [New_init 0 [1, 2, 3], Call_PushBack 0 (Ptr 0 0), Call_PopBack 0,
        New_copy 1 0, Call_Resize 1 1] (world_of [9]) = Inr w \<and>
     vecs (world_of [9 :: int]) = (\<lambda>a. None) \<and> vecs w 1 = Some v \<and>
     GetSize v = 1 \<and> GetCapacity v = 6 \<and> GetSize v \<le> GetCapacity v \<and>
     bind_res (end_it v) (\<lambda>e. ptr_diff e (begin_it v)) = Inr 1"
proof -
  let ?v = "\<lparr>size_v = 1, capacity_v = 6, items_v = \<lparr>raw_ptr = Ptr 3 0\<rparr>\<rparr>"
  obtain w where r: "run int_type [New_init 0 [1, 2, 3], Call_PushBack 0 (Ptr 0 0), Call_PopBack 0,
        New_copy 1 0, Call_Resize 1 1] (world_of [9]) = Inr w" and v: "vecs w 1 = Some ?v"
    by (simp add: construct_def call_def run_defs)
  have e: "vecs (world_of [9 :: int]) = (\<lambda>a. None)" by (simp add: world_of_def)
  from reachable_sizes [OF r e v] r e v show ?thesis
    by (auto simp: GetSize_def GetCapacity_def)
qed

end
